theory Spec2Isabelle
  imports Main "HOL-Library.Word" "HOL-Library.Sublist"
begin

section \<open>Configuration constants (internal/config/config.go)\<close>

definition DefaultCheckInterval :: "64 word" where
  "DefaultCheckInterval = 60"

definition DefaultTimeout :: "64 word" where
  "DefaultTimeout = 10"

definition DefaultMaxFailures :: "64 word" where
  "DefaultMaxFailures = 3"

definition NotificationCooldown :: int where
  "NotificationCooldown = 300"

section \<open>Time\<close>

text \<open>
  A \<open>time.Time\<close> is a point on the clock's time line, counted in nanoseconds from the
  zero value \<open>time.Time{}\<close>; a \<open>time.Duration\<close> is a signed 64-bit count of nanoseconds.
  \<open>Time.Sub\<close> saturates at the largest and smallest duration. Every call of
  \<open>time.Now()\<close> (and the one hidden in \<open>time.Since\<close>) is an input of the model: the
  functions below take each clock reading they make as an argument.
\<close>

type_synonym time = int

definition Second :: int where
  "Second = 1000000000"

definition maxDuration :: int where
  "maxDuration = 2 ^ 63 - 1"

definition minDuration :: int where
  "minDuration = - (2 ^ 63)"

definition Sub :: "time \<Rightarrow> time \<Rightarrow> int" where
  "Sub t u = max minDuration (min maxDuration (t - u))"

text \<open>
  \<open>time.Since(notified).Seconds() >= config.NotificationCooldown\<close>, with \<open>clock\<close> the reading
  that \<open>time.Since\<close> takes. \<open>Seconds()\<close> is the float \<open>d / 1e9 + (d % 1e9) / 1e9\<close>; for a
  duration \<open>d\<close> it is at least 300 exactly when \<open>d\<close> is at least \<open>300 * 10^9\<close> nanoseconds
  (below that the whole seconds are at most 299 and the fraction at most 0.999999999,
  which a double tells apart from 300), so the comparison is made on nanoseconds.
\<close>

definition cooldownElapsed :: "time \<Rightarrow> time \<Rightarrow> bool" where
  "cooldownElapsed clock notified = (NotificationCooldown * Second \<le> Sub clock notified)"

section \<open>Records of the store (internal/storage)\<close>

text \<open>
  The three row types. Go's \<open>int\<close> is a signed 64-bit word, \<open>uint\<close> keys are naturals
  (the code only compares them). The columns that gorm maintains by itself
  (\<open>CreatedAt\<close> and \<open>UpdatedAt\<close> of Monitor and Incident, the key of CheckResult, the
  association slices of Monitor, which are never loaded) are left out. Fields of
  CheckResult and Incident whose names Monitor already uses carry a prefix.
\<close>

record Monitor =
  ID :: nat
  Name :: string
  URL :: string
  Enabled :: bool
  CheckInterval :: "64 word"
  ExpectedCodes :: string
  Keywords :: string
  Timeout :: "64 word"
  CurrentStatus :: string
  ConsecutiveFails :: "64 word"
  LastCheckAt :: "time option"

record CheckResult =
  CrCreatedAt :: time
  CrMonitorID :: nat
  StatusCode :: int
  ResponseTime :: int
  Success :: bool
  CrErrorMessage :: string

record Incident =
  IncID :: nat
  IncMonitorID :: nat
  StartedAt :: time
  ResolvedAt :: "time option"
  ErrorMessage :: string
  Notified :: bool
  RecoveryNotified :: bool

text \<open>
  The database: the rows of each table in insertion order, and for the two tables with
  automatic keys the largest key handed out so far (SQLite's sequence). Keys start at 1;
  the key 0 is gorm's "not yet stored". Calls on the store are modelled as succeeding:
  the checker ignores the errors they return, except the "not found" of
  \<open>GetActiveIncident\<close>, which is the value \<open>None\<close>.
\<close>

record Database =
  monitor_rows :: "Monitor list"
  monitor_seq :: nat
  check_result_rows :: "CheckResult list"
  incident_rows :: "Incident list"
  incident_seq :: nat

definition maxKey :: "nat list \<Rightarrow> nat" where
  "maxKey ks = foldr max ks 0"

definition ListEnabledMonitors :: "Database \<Rightarrow> Monitor list" where
  "ListEnabledMonitors d = sort_key ID (filter Enabled (monitor_rows d))"

text \<open>
  \<open>UpdateMonitor\<close> is gorm's \<open>Save\<close>: a value whose key is 0 is inserted under a fresh
  key, which is written back into the value; otherwise every column of the row with that
  key is overwritten, and the row is inserted when there is none. (On an insert gorm also
  puts the column defaults in place of zero fields, which is left out: the checker and
  the tray only hold monitors that were read from the store, whose keys are not 0 and
  whose rows exist, and the theorems about a monitor struct assume a key that is not 0.)
\<close>

definition UpdateMonitor :: "Monitor \<Rightarrow> Database \<Rightarrow> Monitor \<times> Database" where
  "UpdateMonitor m d =
     (if ID m = 0 then
        (let k = Suc (max (monitor_seq d) (maxKey (map ID (monitor_rows d))));
             m' = m\<lparr>ID := k\<rparr>
         in (m', d\<lparr>monitor_rows := monitor_rows d @ [m'], monitor_seq := k\<rparr>))
      else if list_ex (\<lambda>r. ID r = ID m) (monitor_rows d) then
        (m, d\<lparr>monitor_rows := map (\<lambda>r. if ID r = ID m then m else r) (monitor_rows d)\<rparr>)
      else
        (m, d\<lparr>monitor_rows := monitor_rows d @ [m],
              monitor_seq := max (monitor_seq d) (ID m)\<rparr>))"

definition CreateCheckResult :: "CheckResult \<Rightarrow> Database \<Rightarrow> Database" where
  "CreateCheckResult cr d = d\<lparr>check_result_rows := check_result_rows d @ [cr]\<rparr>"

definition CreateIncident :: "Incident \<Rightarrow> Database \<Rightarrow> Database" where
  "CreateIncident i d =
     (let k = (if IncID i = 0
               then Suc (max (incident_seq d) (maxKey (map IncID (incident_rows d))))
               else IncID i)
      in d\<lparr>incident_rows := incident_rows d @ [i\<lparr>IncID := k\<rparr>],
           incident_seq := max (incident_seq d) k\<rparr>)"

text \<open>
  \<open>GetActiveIncident\<close>: \<open>Where("monitor_id = ? AND resolved_at IS NULL").First\<close>, the
  matching row with the smallest key.
\<close>

definition isActiveFor :: "nat \<Rightarrow> Incident \<Rightarrow> bool" where
  "isActiveFor monitorID i = (IncMonitorID i = monitorID \<and> ResolvedAt i = None)"

definition GetActiveIncident :: "nat \<Rightarrow> Database \<Rightarrow> Incident option" where
  "GetActiveIncident monitorID d =
     (case sort_key IncID (filter (isActiveFor monitorID) (incident_rows d)) of
        [] \<Rightarrow> None
      | i # _ \<Rightarrow> Some i)"

text \<open>
  \<open>ResolveIncident\<close>: \<open>Model(&Incident{}).Where("id = ?", id).Update("resolved_at", now)\<close>
  with its own clock reading \<open>now\<close>; only that column of the rows with that key changes.
\<close>

definition ResolveIncident :: "nat \<Rightarrow> time \<Rightarrow> Database \<Rightarrow> Database" where
  "ResolveIncident k now d =
     d\<lparr>incident_rows :=
         map (\<lambda>r. if IncID r = k then r\<lparr>ResolvedAt := Some now\<rparr> else r) (incident_rows d)\<rparr>"

text \<open>
  \<open>UpdateIncident\<close> is gorm's \<open>Save\<close> again: it writes every field of the value it is
  given, \<open>ResolvedAt\<close> included, over the row with the same key.
\<close>

definition UpdateIncident :: "Incident \<Rightarrow> Database \<Rightarrow> Database" where
  "UpdateIncident i d =
     (if IncID i = 0 then CreateIncident i d
      else if list_ex (\<lambda>r. IncID r = IncID i) (incident_rows d) then
        d\<lparr>incident_rows := map (\<lambda>r. if IncID r = IncID i then i else r) (incident_rows d)\<rparr>
      else CreateIncident i d)"

section \<open>Strings: the library functions the parsers call\<close>

text \<open>
  A Go string is its bytes, a \<open>string\<close> here. \<open>strings.Split(s, ",")\<close> cuts at every
  separator byte: \<open>n\<close> separators give \<open>n + 1\<close> parts, the empty string gives one empty
  part.
\<close>

fun Split :: "string \<Rightarrow> char \<Rightarrow> string list" where
  "Split [] sep = [[]]"
| "Split (c # cs) sep =
     (if c = sep then [] # Split cs sep
      else (case Split cs sep of [] \<Rightarrow> [[c]] | p # ps \<Rightarrow> (c # p) # ps))"

text \<open>
  \<open>strings.TrimSpace\<close> removes the white-space runes (\<open>unicode.IsSpace\<close>) at the start,
  then those at the end. A rune read at a position is a white-space rune exactly when the
  bytes there are the UTF-8 encoding of one: tab, line feed, vertical tab, form feed,
  carriage return, space, U+0085, U+00A0, U+1680, U+2000 to U+200A, U+2028, U+2029,
  U+202F, U+205F and U+3000. The last rune of a string is found the same way from its end.
\<close>

definition spaceRunes :: "string list" where
  "spaceRunes =
     [[CHR 0x09], [CHR 0x0A], [CHR 0x0B], [CHR 0x0C], [CHR 0x0D], [CHR 0x20],
      [CHR 0xC2, CHR 0x85], [CHR 0xC2, CHR 0xA0],
      [CHR 0xE1, CHR 0x9A, CHR 0x80],
      [CHR 0xE2, CHR 0x80, CHR 0x80], [CHR 0xE2, CHR 0x80, CHR 0x81],
      [CHR 0xE2, CHR 0x80, CHR 0x82], [CHR 0xE2, CHR 0x80, CHR 0x83],
      [CHR 0xE2, CHR 0x80, CHR 0x84], [CHR 0xE2, CHR 0x80, CHR 0x85],
      [CHR 0xE2, CHR 0x80, CHR 0x86], [CHR 0xE2, CHR 0x80, CHR 0x87],
      [CHR 0xE2, CHR 0x80, CHR 0x88], [CHR 0xE2, CHR 0x80, CHR 0x89],
      [CHR 0xE2, CHR 0x80, CHR 0x8A],
      [CHR 0xE2, CHR 0x80, CHR 0xA8], [CHR 0xE2, CHR 0x80, CHR 0xA9],
      [CHR 0xE2, CHR 0x80, CHR 0xAF],
      [CHR 0xE2, CHR 0x81, CHR 0x9F],
      [CHR 0xE3, CHR 0x80, CHR 0x80]]"

definition firstSpaceRune :: "string \<Rightarrow> string option" where
  "firstSpaceRune s = find (\<lambda>w. prefix w s) spaceRunes"

definition lastSpaceRune :: "string \<Rightarrow> string option" where
  "lastSpaceRune s = find (\<lambda>w. prefix (rev w) (rev s)) spaceRunes"

lemma find_SomeD: "find P xs = Some x \<Longrightarrow> x \<in> set xs \<and> P x"
  by (induction xs) (auto split: if_splits)

lemma spaceRunes_nonempty: "w \<in> set spaceRunes \<Longrightarrow> w \<noteq> []"
  by (auto simp: spaceRunes_def)

lemma firstSpaceRune_shorter:
  assumes "firstSpaceRune s = Some w"
  shows "length (drop (length w) s) < length s"
proof -
  from assms have "w \<in> set spaceRunes" "prefix w s"
    by (auto simp: firstSpaceRune_def dest: find_SomeD)
  then have "w \<noteq> []" "length w \<le> length s"
    by (auto simp: spaceRunes_nonempty prefix_length_le)
  then show ?thesis by (cases w) auto
qed

lemma lastSpaceRune_shorter:
  assumes "lastSpaceRune s = Some w"
  shows "length (take (length s - length w) s) < length s"
proof -
  from assms have "w \<in> set spaceRunes" "prefix (rev w) (rev s)"
    by (auto simp: lastSpaceRune_def dest: find_SomeD)
  then have "w \<noteq> []" "length w \<le> length s"
    using prefix_length_le[of "rev w" "rev s"] by (auto simp: spaceRunes_nonempty)
  then show ?thesis by (cases w) auto
qed

function TrimLeftSpace :: "string \<Rightarrow> string" where
  "TrimLeftSpace s =
     (case firstSpaceRune s of
        None \<Rightarrow> s
      | Some w \<Rightarrow> TrimLeftSpace (drop (length w) s))"
  by pat_completeness auto
termination
  by (relation "measure length") (auto dest: firstSpaceRune_shorter)

function TrimRightSpace :: "string \<Rightarrow> string" where
  "TrimRightSpace s =
     (case lastSpaceRune s of
        None \<Rightarrow> s
      | Some w \<Rightarrow> TrimRightSpace (take (length s - length w) s))"
  by pat_completeness auto
termination
  by (relation "measure length") (auto dest: lastSpaceRune_shorter)

declare TrimLeftSpace.simps [simp del] TrimRightSpace.simps [simp del]

definition TrimSpace :: "string \<Rightarrow> string" where
  "TrimSpace s = TrimRightSpace (TrimLeftSpace s)"

text \<open>
  \<open>fmt.Sscanf(p, "%d", &code)\<close> on a trimmed string \<open>p\<close> (there is no space for it to
  skip). It fails on the empty string; it accepts one sign; it needs a decimal digit, 0
  to 9, next and takes the longest run of them; the token, sign and digits, goes to
  \<open>strconv.ParseInt(tok, 10, 64)\<close>, which rejects a value outside the signed 64-bit
  range. What follows the token is left unread. On failure nothing is stored.
\<close>

definition isDigit :: "char \<Rightarrow> bool" where
  "isDigit c = (c \<in> set ''0123456789'')"

definition isSign :: "char \<Rightarrow> bool" where
  "isSign c = (c = CHR ''+'' \<or> c = CHR ''-'')"

definition digitVal :: "char \<Rightarrow> int" where
  "digitVal c = of_char c - 48"

definition decimalValue :: "string \<Rightarrow> int" where
  "decimalValue ds = foldl (\<lambda>n c. 10 * n + digitVal c) 0 ds"

definition ParseInt :: "string \<Rightarrow> int option" where
  "ParseInt tok =
     (let neg = (tok \<noteq> [] \<and> hd tok = CHR ''-'');
          ds = (if tok \<noteq> [] \<and> isSign (hd tok) then tl tok else tok)
      in if ds = [] \<or> \<not> list_all isDigit ds then None
         else (let n = decimalValue ds
               in if neg then (if n \<le> 2 ^ 63 then Some (- n) else None)
                  else (if n < 2 ^ 63 then Some n else None)))"

definition scanInt :: "string \<Rightarrow> int option" where
  "scanInt s =
     (if s = [] then None
      else (let sgn = (if isSign (hd s) then [hd s] else []);
                rest = (if isSign (hd s) then tl s else s)
            in if rest = [] then None
               else if \<not> isDigit (hd rest) then None
               else ParseInt (sgn @ takeWhile isDigit rest)))"

text \<open>\<open>fmt\<close>'s \<open>%d\<close> of an int and \<open>%v\<close> of a slice of ints.\<close>

function showNat :: "int \<Rightarrow> string" where
  "showNat n =
     (if n < 10 then [char_of (48 + n)] else showNat (n div 10) @ [char_of (48 + n mod 10)])"
  by pat_completeness auto
termination
  by (relation "measure nat") auto

declare showNat.simps [simp del]

definition showInt :: "int \<Rightarrow> string" where
  "showInt i = (if i < 0 then CHR ''-'' # showNat (- i) else showNat i)"

fun joinWith :: "string \<Rightarrow> string list \<Rightarrow> string" where
  "joinWith sep [] = []"
| "joinWith sep [x] = x"
| "joinWith sep (x # y # ys) = x @ sep @ joinWith sep (y # ys)"

definition showInts :: "int list \<Rightarrow> string" where
  "showInts xs = ''['' @ joinWith '' '' (map showInt xs) @ '']''"

section \<open>The parsers (internal/storage/database.go)\<close>

text \<open>
  \<open>scanCode\<close> is the body of the loop of \<open>ParseExpectedCodes\<close> up to the test: trim the
  part, scan it into \<open>code\<close>, which starts as 0.
\<close>

definition scanCode :: "string \<Rightarrow> int" where
  "scanCode p = (case scanInt (TrimSpace p) of None \<Rightarrow> 0 | Some code \<Rightarrow> code)"

definition ParseExpectedCodes :: "string \<Rightarrow> int list" where
  "ParseExpectedCodes codes =
     (if codes = [] then [200]
      else (let result = filter (\<lambda>code. 0 < code) (map scanCode (Split codes CHR '',''))
            in if result = [] then [200] else result))"

definition ParseKeywords :: "string \<Rightarrow> string list" where
  "ParseKeywords keywords =
     (if keywords = [] then []
      else filter (\<lambda>p. p \<noteq> []) (map TrimSpace (Split keywords CHR '','')))"

section \<open>Runes and the regular expression of a keyword\<close>

text \<open>
  \<open>utf8.DecodeRuneInString\<close>: the rune at the start of a string and its width in bytes.
  Bytes that are not the UTF-8 encoding of a rune give \<open>RuneError\<close>, U+FFFD, with width 1
  (width 0 on the empty string). The first byte fixes the width and the range of the
  second byte; the later bytes are continuation bytes, 0x80 to 0xBF.
\<close>

definition RuneError :: int where
  "RuneError = 65533"

definition DecodeRuneInString :: "string \<Rightarrow> int \<times> nat" where
  "DecodeRuneInString s =
     (case map of_char s of
        [] \<Rightarrow> (RuneError, 0)
      | s0 # rest \<Rightarrow>
          if s0 < 128 then (s0, 1)
          else if s0 < 194 \<or> 244 < s0 then (RuneError, 1)
          else
            (let sz = (if s0 < 224 then 2 else if s0 < 240 then 3 else 4);
                 lo = (if s0 = 224 then 160 else if s0 = 240 then 144 else 128);
                 hi = (if s0 = 237 then 159 else if s0 = 244 then 143 else 191)
             in if length s < sz then (RuneError, 1)
                else
                  (let s1 = rest ! 0
                   in if s1 < lo \<or> hi < s1 then (RuneError, 1)
                      else if sz \<le> 2 then (s0 mod 32 * 64 + s1 mod 64, 2)
                      else
                        (let s2 = rest ! 1
                         in if s2 < 128 \<or> 191 < s2 then (RuneError, 1)
                            else if sz \<le> 3 then
                              (s0 mod 16 * 4096 + s1 mod 64 * 64 + s2 mod 64, 3)
                            else
                              (let s3 = rest ! 2
                               in if s3 < 128 \<or> 191 < s3 then (RuneError, 1)
                                  else (s0 mod 8 * 262144 + s1 mod 64 * 4096 +
                                        s2 mod 64 * 64 + s3 mod 64, 4))))))"

lemma DecodeRuneInString_width: "s \<noteq> [] \<Longrightarrow> 0 < snd (DecodeRuneInString s)"
  by (cases s) (simp_all add: DecodeRuneInString_def Let_def)

lemma DecodeRuneInString_shorter:
  assumes "s \<noteq> []"
  shows "length (drop (snd (DecodeRuneInString s)) s) < length s"
  using assms DecodeRuneInString_width[OF assms] by simp

text \<open>
  The runes of a string, as the input of a regexp steps through it (and as \<open>[]rune(s)\<close>
  lists them): the rune at the start, then the runes of what follows its width.
\<close>

function runes :: "string \<Rightarrow> int list" where
  "runes s =
     (if s = [] then []
      else fst (DecodeRuneInString s) # runes (drop (snd (DecodeRuneInString s)) s))"
  by pat_completeness auto
termination
  by (relation "measure length") (simp_all add: DecodeRuneInString_shorter del: length_drop)

text \<open>
  \<open>checkUTF8\<close> of \<open>regexp/syntax\<close>: the parser refuses a pattern in which some position
  decodes to \<open>RuneError\<close> with width 1.
\<close>

function checkUTF8 :: "string \<Rightarrow> bool" where
  "checkUTF8 s =
     (if s = [] then True
      else if DecodeRuneInString s = (RuneError, 1) then False
      else checkUTF8 (drop (snd (DecodeRuneInString s)) s))"
  by pat_completeness auto
termination
  by (relation "measure length") (simp_all add: DecodeRuneInString_shorter del: length_drop)

declare runes.simps [simp del] checkUTF8.simps [simp del]

text \<open>
  \<open>regexp.MatchString("(?i)" + regexp.QuoteMeta(keyword), bodyStr)\<close>. \<open>QuoteMeta\<close> puts a
  backslash before each byte that is special in a pattern, so the pattern is the literal
  of the runes of the keyword under the flag \<open>i\<close>. It compiles (\<open>compiles\<close>) unless the
  keyword is not valid UTF-8 or has more runes than the parser allows (\<open>maxRunes\<close>); then
  \<open>err\<close> is not nil, here the result \<open>None\<close>. The compiled literal is searched for in
  the body: it matches at a rune of the body when each of its runes \<open>r0\<close> meets, in turn,
  a rune \<open>r\<close> of the body that is \<open>r0\<close> or is reached from it by \<open>unicode.SimpleFold\<close>,
  that is, lies in the orbit of \<open>r0\<close> under Unicode's simple case folding.

  The orbits of the runes below U+0100 are written out. Below U+0080: a letter and the
  same letter in the other case, and besides K and k with the Kelvin sign U+212A, S and
  s with the long s U+017F. From U+0080 to U+00FF: the letters U+00C0 to U+00DE (the
  multiplication sign U+00D7 is none) with the letters U+00E0 to U+00FE (the division
  sign U+00F7 is none), 32 apart, and besides U+00C5 and U+00E5 with the Angstrom sign
  U+212B, the sharp s U+00DF with U+1E9E, U+00FF with U+0178, and the micro sign U+00B5
  with the Greek letters U+039C and U+03BC. For the runes from U+0100 on, the table of
  the \<open>unicode\<close> package is the parameter \<open>orbit\<close> of the model: \<open>orbit r0 r\<close> says that
  \<open>r\<close>, other than \<open>r0\<close>, is in the orbit of \<open>r0\<close>.
\<close>

definition maxRunes :: int where
  "maxRunes = 33554432"

definition asciiOrbit :: "int \<Rightarrow> int \<Rightarrow> bool" where
  "asciiOrbit r0 r =
     ((65 \<le> r0 \<and> r0 \<le> 90 \<and> r = r0 + 32) \<or> (97 \<le> r0 \<and> r0 \<le> 122 \<and> r = r0 - 32) \<or>
      ((r0 = 75 \<or> r0 = 107) \<and> r = 8490) \<or> ((r0 = 83 \<or> r0 = 115) \<and> r = 383))"

definition latin1Orbit :: "int \<Rightarrow> int \<Rightarrow> bool" where
  "latin1Orbit r0 r =
     ((192 \<le> r0 \<and> r0 \<le> 222 \<and> r0 \<noteq> 215 \<and> r = r0 + 32) \<or>
      (224 \<le> r0 \<and> r0 \<le> 254 \<and> r0 \<noteq> 247 \<and> r = r0 - 32) \<or>
      ((r0 = 197 \<or> r0 = 229) \<and> r = 8491) \<or> (r0 = 223 \<and> r = 7838) \<or>
      (r0 = 255 \<and> r = 376) \<or> (r0 = 181 \<and> (r = 924 \<or> r = 956)))"

definition foldsTo :: "(int \<Rightarrow> int \<Rightarrow> bool) \<Rightarrow> int \<Rightarrow> int \<Rightarrow> bool" where
  "foldsTo orbit r0 r =
     (r = r0 \<or>
      (if r0 < 128 then asciiOrbit r0 r
       else if r0 < 256 then latin1Orbit r0 r
       else orbit r0 r))"

fun matchHere :: "(int \<Rightarrow> int \<Rightarrow> bool) \<Rightarrow> int list \<Rightarrow> int list \<Rightarrow> bool" where
  "matchHere orbit [] input = True"
| "matchHere orbit (r0 # literal) [] = False"
| "matchHere orbit (r0 # literal) (r # input) =
     (foldsTo orbit r0 r \<and> matchHere orbit literal input)"

fun search :: "(int \<Rightarrow> int \<Rightarrow> bool) \<Rightarrow> int list \<Rightarrow> int list \<Rightarrow> bool" where
  "search orbit literal [] = (literal = [])"
| "search orbit literal (r # input) =
     (matchHere orbit literal (r # input) \<or> search orbit literal input)"

definition compiles :: "string \<Rightarrow> bool" where
  "compiles keyword = (checkUTF8 keyword \<and> int (length (runes keyword)) \<le> maxRunes)"

definition MatchString ::
  "(int \<Rightarrow> int \<Rightarrow> bool) \<Rightarrow> string \<Rightarrow> string \<Rightarrow> bool option" where
  "MatchString orbit keyword bodyStr =
     (if compiles keyword then Some (search orbit (runes keyword) (runes bodyStr)) else None)"

section \<open>The checker (internal/checker/checker.go)\<close>

text \<open>
  The notifier is the list of calls made on it, in order. Each call is logged with two
  clock readings: \<open>evalStart\<close>, the \<open>now\<close> of the evaluation that made the call, and
  \<open>calledAt\<close>, the last reading taken before the call.
\<close>

datatype Call = NotifyDown string string string | NotifyRecovery string string

record Notification =
  evalStart :: time
  calledAt :: time
  call :: Call

text \<open>
  \<open>monitorState\<close> keeps the cooldown timestamp; its pointer to the monitor, the ticker
  and the stop channel belong to the scheduling of the task and are not modelled.
\<close>

record monitorState =
  lastNotified :: time

record Checker =
  db :: Database
  sent :: "Notification list"
  monitors :: "nat \<rightharpoonup> monitorState"

text \<open>
  \<open>recordSuccess\<close>. \<open>now\<close> is the reading at its first line, \<open>resolveNow\<close> the one that
  \<open>ResolveIncident\<close> takes. The result is the checker and the monitor struct \<open>m\<close> as the
  call leaves them.
\<close>

definition recordSuccess ::
  "Checker \<Rightarrow> Monitor \<Rightarrow> int \<Rightarrow> int \<Rightarrow> time \<Rightarrow> time \<Rightarrow> Checker \<times> Monitor" where
  "recordSuccess c m statusCode responseTime now resolveNow =
     (let result = \<lparr>CrCreatedAt = now, CrMonitorID = ID m, StatusCode = statusCode,
                     ResponseTime = responseTime, Success = True, CrErrorMessage = []\<rparr>;
          d1 = CreateCheckResult result (db c);
          wasDown = (CurrentStatus m = ''down'');
          (m', d2) = UpdateMonitor
                       (m\<lparr>CurrentStatus := ''up'', ConsecutiveFails := 0,
                          LastCheckAt := Some now\<rparr>) d1
      in if wasDown then
           (case GetActiveIncident (ID m') d2 of
              None \<Rightarrow> (c\<lparr>db := d2\<rparr>, m')
            | Some incident \<Rightarrow>
                (let d3 = ResolveIncident (IncID incident) resolveNow d2
                 in if \<not> RecoveryNotified incident then
                      (c\<lparr>db := UpdateIncident (incident\<lparr>RecoveryNotified := True\<rparr>) d3,
                         sent := sent c @ [\<lparr>evalStart = now, calledAt = resolveNow,
                                            call = NotifyRecovery (Name m') (URL m')\<rparr>]\<rparr>, m')
                    else (c\<lparr>db := d3\<rparr>, m')))
         else (c\<lparr>db := d2\<rparr>, m'))"

text \<open>
  The cooldown gate of \<open>recordFailure\<close>, the same in both of its branches: under the
  lock, look the monitor's state up; when it is there and the cooldown has elapsed at the
  reading \<open>clock\<close> of \<open>time.Since\<close>, call \<open>NotifyDown\<close> and set \<open>lastNotified\<close> to \<open>now\<close>.
\<close>

definition notifyDownGated ::
  "Checker \<Rightarrow> Monitor \<Rightarrow> string \<Rightarrow> time \<Rightarrow> time \<Rightarrow> Checker" where
  "notifyDownGated c m errorMsg now clock =
     (case monitors c (ID m) of
        None \<Rightarrow> c
      | Some ms \<Rightarrow>
          if cooldownElapsed clock (lastNotified ms) then
            c\<lparr>sent := sent c @ [\<lparr>evalStart = now, calledAt = clock,
                                 call = NotifyDown (Name m) (URL m) errorMsg\<rparr>],
              monitors := (monitors c)(ID m \<mapsto> ms\<lparr>lastNotified := now\<rparr>)\<rparr>
          else c)"

text \<open>
  \<open>recordFailure\<close>. \<open>errorMsg\<close> is \<open>err.Error()\<close>, \<open>now\<close> the reading at its first line,
  \<open>clock\<close> the reading of \<open>time.Since\<close> at the gate. \<open>ConsecutiveFails++\<close> wraps, and the
  comparison with the threshold is signed.
\<close>

definition recordFailure ::
  "Checker \<Rightarrow> Monitor \<Rightarrow> int \<Rightarrow> string \<Rightarrow> time \<Rightarrow> time \<Rightarrow> Checker \<times> Monitor" where
  "recordFailure c m statusCode errorMsg now clock =
     (let result = \<lparr>CrCreatedAt = now, CrMonitorID = ID m, StatusCode = statusCode,
                     ResponseTime = 0, Success = False, CrErrorMessage = errorMsg\<rparr>;
          c1 = c\<lparr>db := CreateCheckResult result (db c)\<rparr>;
          m1 = m\<lparr>ConsecutiveFails := ConsecutiveFails m + 1, LastCheckAt := Some now\<rparr>;
          (c2, m2) =
            (if DefaultMaxFailures \<le>s ConsecutiveFails m1 then
               (let wasUp = (CurrentStatus m1 \<noteq> ''down'');
                    m2 = m1\<lparr>CurrentStatus := ''down''\<rparr>
                in if wasUp then
                     (let incident = \<lparr>IncID = 0, IncMonitorID = ID m2, StartedAt = now,
                                        ResolvedAt = None, ErrorMessage = errorMsg,
                                        Notified = False, RecoveryNotified = False\<rparr>;
                          c2 = c1\<lparr>db := CreateIncident incident (db c1)\<rparr>
                      in (notifyDownGated c2 m2 errorMsg now clock, m2))
                   else
                     (case GetActiveIncident (ID m2) (db c1) of
                        None \<Rightarrow> (c1, m2)
                      | Some incident \<Rightarrow>
                          (let c2 = c1\<lparr>db := UpdateIncident
                                               (incident\<lparr>ErrorMessage := errorMsg\<rparr>) (db c1)\<rparr>
                           in (notifyDownGated c2 m2 errorMsg now clock, m2))))
             else (c1, m1));
          (m3, d3) = UpdateMonitor m2 (db c2)
      in (c2\<lparr>db := d3\<rparr>, m3))"

text \<open>
  What the HTTP client hands back to one check is an input of the model: the request
  failed (\<open>NewRequestWithContext\<close> or \<open>client.Do\<close> returned the error with this text), the
  body could not be read (status code, elapsed milliseconds, text of the error), or a
  response arrived (status code, body, elapsed milliseconds).
\<close>

datatype HttpResult =
    RequestFailed string
  | BodyReadFailed int int string
  | Responded int string int

text \<open>
  The keyword loop of \<open>performCheck\<close>: the error of the first keyword for which
  \<open>MatchString\<close> returns an error or no match (\<open>err != nil || !matched\<close>). The table
  \<open>orbit\<close> is handed down to \<open>MatchString\<close> by every function that reaches it.
\<close>

fun checkKeywords ::
  "(int \<Rightarrow> int \<Rightarrow> bool) \<Rightarrow> string list \<Rightarrow> string \<Rightarrow> string option" where
  "checkKeywords orbit [] bodyStr = None"
| "checkKeywords orbit (keyword # keywords) bodyStr =
     (if MatchString orbit keyword bodyStr \<noteq> Some True
      then Some (''keyword '' @ [CHR 0x27] @ keyword @ [CHR 0x27] @ '' not found in response'')
      else checkKeywords orbit keywords bodyStr)"

text \<open>
  The probe: \<open>performCheck\<close> from the request to the call of \<open>recordFailure\<close> or
  \<open>recordSuccess\<close>, as the outcome that decides which one is called and with what.
\<close>

datatype Outcome = Passed int int | Failed int string

definition probe :: "(int \<Rightarrow> int \<Rightarrow> bool) \<Rightarrow> Monitor \<Rightarrow> HttpResult \<Rightarrow> Outcome" where
  "probe orbit m r =
     (case r of
        RequestFailed e \<Rightarrow> Failed 0 e
      | BodyReadFailed statusCode ms e \<Rightarrow>
          Failed statusCode (''failed to read response body: '' @ e)
      | Responded statusCode body responseTime \<Rightarrow>
          (let expectedCodes = ParseExpectedCodes (ExpectedCodes m);
               statusOK = (statusCode \<in> set expectedCodes)
           in if \<not> statusOK then
                Failed statusCode
                  (''unexpected status code: got '' @ showInt statusCode @
                   '', expected one of '' @ showInts expectedCodes)
              else
                (case checkKeywords orbit (ParseKeywords (Keywords m)) body of
                   Some e \<Rightarrow> Failed statusCode e
                 | None \<Rightarrow> Passed statusCode responseTime)))"

definition performCheck ::
  "(int \<Rightarrow> int \<Rightarrow> bool) \<Rightarrow> Checker \<Rightarrow> Monitor \<Rightarrow> HttpResult \<Rightarrow> time \<Rightarrow> time \<Rightarrow>
   Checker \<times> Monitor" where
  "performCheck orbit c m r now clock =
     (case probe orbit m r of
        Failed statusCode e \<Rightarrow> recordFailure c m statusCode e now clock
      | Passed statusCode responseTime \<Rightarrow> recordSuccess c m statusCode responseTime now clock)"

text \<open>
  The deadline of the request in \<open>performCheck\<close> (and in the tray's \<open>checkMonitor\<close>), and
  the period of the ticker in \<open>startMonitor\<close>, both as durations in nanoseconds: the
  product \<open>time.Duration(n) * time.Second\<close> wraps, the comparison is signed.
\<close>

definition SecondW :: "64 word" where
  "SecondW = 1000000000"

definition performCheck_timeout :: "Monitor \<Rightarrow> 64 word" where
  "performCheck_timeout m =
     (let timeout = Timeout m * SecondW
      in if timeout = 0 then DefaultTimeout * SecondW else timeout)"

definition startMonitor_interval :: "Monitor \<Rightarrow> 64 word" where
  "startMonitor_interval m =
     (let interval = CheckInterval m * SecondW
      in if interval <s SecondW then DefaultCheckInterval * SecondW else interval)"

text \<open>
  \<open>runMonitor\<close>: the task of one monitor performs a check at once and one at every tick
  until it is stopped. The list holds, for each check made, what the HTTP client returned
  and its two clock readings.
\<close>

fun runMonitor ::
  "(int \<Rightarrow> int \<Rightarrow> bool) \<Rightarrow> Checker \<Rightarrow> Monitor \<Rightarrow> (HttpResult \<times> time \<times> time) list \<Rightarrow>
   Checker \<times> Monitor" where
  "runMonitor orbit c m [] = (c, m)"
| "runMonitor orbit c m ((r, now, clock) # ticks) =
     (case performCheck orbit c m r now clock of (c', m') \<Rightarrow> runMonitor orbit c' m' ticks)"

text \<open>
  The effect of \<open>startMonitor\<close> and \<open>RemoveMonitor\<close> on the map of monitor states: a
  started monitor gets a new state, whose \<open>lastNotified\<close> is the zero time.
\<close>

definition startMonitor :: "Checker \<Rightarrow> Monitor \<Rightarrow> Checker" where
  "startMonitor c m = c\<lparr>monitors := (monitors c)(ID m \<mapsto> \<lparr>lastNotified = 0\<rparr>)\<rparr>"

definition RemoveMonitor :: "Checker \<Rightarrow> nat \<Rightarrow> Checker" where
  "RemoveMonitor c k = c\<lparr>monitors := (monitors c)(k := None)\<rparr>"

section \<open>The tray (internal/tray/tray.go)\<close>

text \<open>
  The tray application: its database handle and its own notifier. Its list of monitors,
  its colour and its menu items only feed the display.
\<close>

record TrayApp =
  trayDb :: Database
  traySent :: "Notification list"

text \<open>
  The keyword loop of the tray's \<open>checkMonitor\<close>. It drops the error of \<open>MatchString\<close>
  and tests \<open>matched\<close>, which is false when there is an error.
\<close>

fun trayKeywords ::
  "(int \<Rightarrow> int \<Rightarrow> bool) \<Rightarrow> string list \<Rightarrow> string \<Rightarrow> string option" where
  "trayKeywords orbit [] bodyStr = None"
| "trayKeywords orbit (keyword # keywords) bodyStr =
     (if MatchString orbit keyword bodyStr \<noteq> Some True
      then Some (''keyword '' @ [CHR 0x27] @ keyword @ [CHR 0x27] @ '' not found'')
      else trayKeywords orbit keywords bodyStr)"

definition checkMonitor ::
  "(int \<Rightarrow> int \<Rightarrow> bool) \<Rightarrow> Monitor \<Rightarrow> HttpResult \<Rightarrow> int \<times> int \<times> string option" where
  "checkMonitor orbit mon r =
     (case r of
        RequestFailed e \<Rightarrow> (0, 0, Some e)
      | BodyReadFailed statusCode responseTime e \<Rightarrow>
          (statusCode, responseTime, Some (''failed to read body: '' @ e))
      | Responded statusCode body responseTime \<Rightarrow>
          (if statusCode \<notin> set (ParseExpectedCodes (ExpectedCodes mon)) then
             (statusCode, responseTime, Some (''status '' @ showInt statusCode))
           else
             (case trayKeywords orbit (ParseKeywords (Keywords mon)) body of
                Some e \<Rightarrow> (statusCode, responseTime, Some e)
              | None \<Rightarrow> (statusCode, responseTime, None))))"

text \<open>
  The body of the loop of \<open>checkAllMonitors\<close> for one monitor \<open>mon\<close> (a copy of the row
  just listed), with \<open>now\<close> its one clock reading. The branch for a slow response and the
  branch for a fast one differ in the label only and are one branch here.
\<close>

definition checkOne ::
  "(int \<Rightarrow> int \<Rightarrow> bool) \<Rightarrow> TrayApp \<Rightarrow> Monitor \<Rightarrow> HttpResult \<Rightarrow> time \<Rightarrow> TrayApp" where
  "checkOne orbit t mon r now =
     (case checkMonitor orbit mon r of (statusCode, responseTime, checkErr) \<Rightarrow>
        (let result = \<lparr>CrCreatedAt = now, CrMonitorID = ID mon, StatusCode = statusCode,
                        ResponseTime = responseTime, Success = (checkErr = None),
                        CrErrorMessage = (case checkErr of None \<Rightarrow> [] | Some e \<Rightarrow> e)\<rparr>;
             d1 = CreateCheckResult result (trayDb t);
             (mon1, calls) =
               (case checkErr of
                  Some e \<Rightarrow>
                    (let mon1 = mon\<lparr>ConsecutiveFails := ConsecutiveFails mon + 1\<rparr>
                     in if DefaultMaxFailures \<le>s ConsecutiveFails mon1 then
                          (let wasUp = (CurrentStatus mon1 \<noteq> ''down'');
                               mon2 = mon1\<lparr>CurrentStatus := ''down''\<rparr>
                           in (mon2, if wasUp then [NotifyDown (Name mon2) (URL mon2) e] else []))
                        else (mon1, []))
                | None \<Rightarrow>
                    (let wasDown = (CurrentStatus mon = ''down'');
                         mon1 = mon\<lparr>CurrentStatus := ''up'', ConsecutiveFails := 0\<rparr>
                     in (mon1, if wasDown then [NotifyRecovery (Name mon1) (URL mon1)] else [])));
             (mon2, d2) = UpdateMonitor (mon1\<lparr>LastCheckAt := Some now\<rparr>) d1
         in t\<lparr>trayDb := d2,
              traySent := traySent t @
                map (\<lambda>c. \<lparr>evalStart = now, calledAt = now, call = c\<rparr>) calls\<rparr>))"

text \<open>
  \<open>checkAllMonitors\<close>: list the enabled monitors and check each in turn. \<open>env\<close> gives, for
  the monitor with a key, what the HTTP client returns in this round and the clock
  reading of its iteration.
\<close>

fun checkEach ::
  "(int \<Rightarrow> int \<Rightarrow> bool) \<Rightarrow> TrayApp \<Rightarrow> Monitor list \<Rightarrow> (nat \<Rightarrow> HttpResult \<times> time) \<Rightarrow>
   TrayApp" where
  "checkEach orbit t [] env = t"
| "checkEach orbit t (mon # rest) env =
     checkEach orbit (checkOne orbit t mon (fst (env (ID mon))) (snd (env (ID mon)))) rest env"

definition checkAllMonitors ::
  "(int \<Rightarrow> int \<Rightarrow> bool) \<Rightarrow> TrayApp \<Rightarrow> (nat \<Rightarrow> HttpResult \<times> time) \<Rightarrow> TrayApp" where
  "checkAllMonitors orbit t env = checkEach orbit t (ListEnabledMonitors (trayDb t)) env"

text \<open>\<open>runChecker\<close>: one round at once and one at every tick of its 30 second ticker.\<close>

fun runChecker ::
  "(int \<Rightarrow> int \<Rightarrow> bool) \<Rightarrow> TrayApp \<Rightarrow> (nat \<Rightarrow> HttpResult \<times> time) list \<Rightarrow> TrayApp" where
  "runChecker orbit t [] = t"
| "runChecker orbit t (env # envs) = runChecker orbit (checkAllMonitors orbit t env) envs"

section \<open>Properties of a store and of a notifier log\<close>

text \<open>
  The primary key of the incident table: the keys of its rows are distinct and none is 0.
\<close>

definition storeKeyed :: "Database \<Rightarrow> bool" where
  "storeKeyed d =
     (distinct (map IncID (incident_rows d)) \<and> 0 \<notin> set (map IncID (incident_rows d)))"

text \<open>
  The \<open>NotifyDown\<close> calls of a log, and the cooldown between them: each one is made at a
  clock reading that lies at least the cooldown after the \<open>now\<close> of the evaluation that
  made the one before it.
\<close>

fun isNotifyDown :: "Notification \<Rightarrow> bool" where
  "isNotifyDown n = (case call n of NotifyDown _ _ _ \<Rightarrow> True | NotifyRecovery _ _ \<Rightarrow> False)"

definition downCalls :: "Notification list \<Rightarrow> Notification list" where
  "downCalls log = filter isNotifyDown log"

fun cooledDown :: "Notification list \<Rightarrow> bool" where
  "cooledDown (a # b # rest) =
     (NotificationCooldown * Second \<le> calledAt b - evalStart a \<and> cooledDown (b # rest))"
| "cooledDown [a] = True"
| "cooledDown [] = True"

text \<open>
  The state of the gate matches the log: the \<open>NotifyDown\<close> calls so far have kept the
  cooldown, and when there is one, the monitor with key \<open>k\<close> has a state whose
  \<open>lastNotified\<close> is the \<open>now\<close> of the evaluation that made the latest.
\<close>

definition gated :: "Checker \<Rightarrow> nat \<Rightarrow> bool" where
  "gated c k =
     (cooledDown (downCalls (sent c)) \<and>
      (downCalls (sent c) = [] \<or>
       (case monitors c k of
          None \<Rightarrow> False
        | Some ms \<Rightarrow> lastNotified ms = evalStart (last (downCalls (sent c))))))"

section \<open>White space, entries and keywords, in the words of the specification\<close>

text \<open>
  White space is a row of white-space characters, each in its UTF-8 encoding. The
  white-space characters are the code points of \<open>unicode.IsSpace\<close>: tab, line feed,
  vertical tab, form feed, carriage return, space, U+0085, U+00A0, U+1680, U+2000 to
  U+200A, U+2028, U+2029, U+202F, U+205F and U+3000.
\<close>

definition spaceCodes :: "int list" where
  "spaceCodes =
     [0x09, 0x0A, 0x0B, 0x0C, 0x0D, 0x20, 0x85, 0xA0, 0x1680,
      0x2000, 0x2001, 0x2002, 0x2003, 0x2004, 0x2005, 0x2006, 0x2007, 0x2008, 0x2009, 0x200A,
      0x2028, 0x2029, 0x202F, 0x205F, 0x3000]"

definition IsSpace :: "int \<Rightarrow> bool" where
  "IsSpace c = (c \<in> set spaceCodes)"

text \<open>The UTF-8 encoding of a code point, and of a row of code points.\<close>

definition utf8 :: "int \<Rightarrow> string" where
  "utf8 c =
     (if c < 128 then [char_of c]
      else if c < 2048 then [char_of (192 + c div 64), char_of (128 + c mod 64)]
      else if c < 65536 then
        [char_of (224 + c div 4096), char_of (128 + c div 64 mod 64), char_of (128 + c mod 64)]
      else
        [char_of (240 + c div 262144), char_of (128 + c div 4096 mod 64),
         char_of (128 + c div 64 mod 64), char_of (128 + c mod 64)])"

definition utf8s :: "int list \<Rightarrow> string" where
  "utf8s cs = concat (map utf8 cs)"

text \<open>An entry that begins with a white-space character.\<close>

definition startsWithSpace :: "string \<Rightarrow> bool" where
  "startsWithSpace p = list_ex (\<lambda>c. prefix (utf8 c) p) spaceCodes"

text \<open>
  A positive integer: a row of decimal digits, at least one, with a positive value.
\<close>

definition positiveInteger :: "string \<Rightarrow> bool" where
  "positiveInteger p = (p \<noteq> [] \<and> list_all isDigit p \<and> 0 < decimalValue p)"

text \<open>
  The code an entry is read as, white space before it aside: after a plus sign, if there
  is one, the longest row of decimal digits; the entry gives the value of the row when
  the row is not empty and the value is from 1 to \<open>2^63 - 1\<close>, and no code otherwise.
  What follows the digits plays no part.
\<close>

definition entryCode :: "string \<Rightarrow> int option" where
  "entryCode p =
     (let digits = takeWhile isDigit (if p \<noteq> [] \<and> hd p = CHR ''+'' then tl p else p)
      in if digits \<noteq> [] \<and> 0 < decimalValue digits \<and> decimalValue digits < 2 ^ 63
         then Some (decimalValue digits) else None)"




section \<open>A monitor, a store and probes to run the code on\<close>

definition site :: Monitor where
  "site = \<lparr>ID = 1, Name = ''site'', URL = ''http://site'', Enabled = True,
           CheckInterval = 60, ExpectedCodes = ''200'', Keywords = ''ok, ready'',
           Timeout = 10, CurrentStatus = ''up'', ConsecutiveFails = 0, LastCheckAt = None\<rparr>"

definition store0 :: Database where
  "store0 = \<lparr>monitor_rows = [site], monitor_seq = 1, check_result_rows = [],
             incident_rows = [], incident_seq = 0\<rparr>"

definition checker0 :: Checker where
  "checker0 = startMonitor \<lparr>db = store0, sent = [], monitors = Map.empty\<rparr> site"

definition tray0 :: TrayApp where
  "tray0 = \<lparr>trayDb = store0, traySent = []\<rparr>"

definition refused :: HttpResult where
  "refused = RequestFailed ''connection refused''"

definition healthy :: HttpResult where
  "healthy = Responded 200 ''OK, all READY'' 12"

definition timedOut :: HttpResult where
  "timedOut = RequestFailed ''context deadline exceeded''"

text \<open>A clock reading: so many seconds after a start in the year 2029.\<close>

definition atSecond :: "int \<Rightarrow> time" where
  "atSecond n = 64000000000000000000 + n * Second"

text \<open>
  Runs of the task of \<open>site\<close>, each check with its result and the second of its (two
  equal) clock readings: an outage of three refused checks a minute apart; the outage
  and a recovery; the recovery and a second outage; the second outage and one more
  check, which times out; an outage that lasts eight checks.
\<close>

definition tick :: "HttpResult \<Rightarrow> int \<Rightarrow> HttpResult \<times> time \<times> time" where
  "tick r n = (r, atSecond n, atSecond n)"

definition outage :: "(HttpResult \<times> time \<times> time) list" where
  "outage = [tick refused 0, tick refused 60, tick refused 120]"

definition recovery :: "(HttpResult \<times> time \<times> time) list" where
  "recovery = outage @ [tick healthy 180]"

definition relapse :: "(HttpResult \<times> time \<times> time) list" where
  "relapse = recovery @ [tick refused 240, tick refused 300, tick refused 360]"

definition laterFailure :: "(HttpResult \<times> time \<times> time) list" where
  "laterFailure = relapse @ [tick timedOut 420]"

definition longOutage :: "(HttpResult \<times> time \<times> time) list" where
  "longOutage = outage @ [tick refused 180, tick refused 240, tick refused 300,
                          tick refused 360, tick refused 420]"

text \<open>
  Rounds of the tray, half a minute apart, in which every monitor gets the same result:
  three refused rounds; these, a healthy round and three refused rounds more.
\<close>

definition everyMonitor :: "HttpResult \<Rightarrow> int \<Rightarrow> nat \<Rightarrow> HttpResult \<times> time" where
  "everyMonitor r n k = (r, atSecond n)"

definition trayOutage :: "(nat \<Rightarrow> HttpResult \<times> time) list" where
  "trayOutage = [everyMonitor refused 0, everyMonitor refused 30, everyMonitor refused 60]"

definition trayFlap :: "(nat \<Rightarrow> HttpResult \<times> time) list" where
  "trayFlap = trayOutage @ [everyMonitor healthy 90, everyMonitor refused 120,
                            everyMonitor refused 150, everyMonitor refused 180]"

section \<open>Facts about the store\<close>

lemma UpdateMonitor_frame:
  assumes "UpdateMonitor m d = (m', d')"
  shows "incident_rows d' = incident_rows d" "incident_seq d' = incident_seq d"
    "check_result_rows d' = check_result_rows d" "m' = m\<lparr>ID := ID m'\<rparr>"
  using assms by (auto simp: UpdateMonitor_def Let_def split: if_splits)

lemma UpdateMonitor_stored: "ID m \<noteq> 0 \<Longrightarrow> fst (UpdateMonitor m d) = m"
  by (simp add: UpdateMonitor_def)

lemma UpdateMonitor_fields:
  assumes "UpdateMonitor m d = (m', d')"
  shows "CurrentStatus m' = CurrentStatus m" "ConsecutiveFails m' = ConsecutiveFails m"
proof -
  have "m' = m\<lparr>ID := ID m'\<rparr>" using assms by (rule UpdateMonitor_frame)
  then have "CurrentStatus m' = CurrentStatus (m\<lparr>ID := ID m'\<rparr>)"
    "ConsecutiveFails m' = ConsecutiveFails (m\<lparr>ID := ID m'\<rparr>)" by simp_all
  then show "CurrentStatus m' = CurrentStatus m" "ConsecutiveFails m' = ConsecutiveFails m"
    by simp_all
qed

lemma notifyDownGated_db: "db (notifyDownGated c m e now clock) = db c"
  by (simp add: notifyDownGated_def split: option.splits)

lemma GetActiveIncident_Some:
  assumes "GetActiveIncident k d = Some i"
  shows "i \<in> set (incident_rows d)" "isActiveFor k i"
proof -
  from assms obtain rest
    where "sort_key IncID (filter (isActiveFor k) (incident_rows d)) = i # rest"
    by (auto simp: GetActiveIncident_def split: list.splits)
  then have "i \<in> set (sort_key IncID (filter (isActiveFor k) (incident_rows d)))"
    by simp
  then show "i \<in> set (incident_rows d)" "isActiveFor k i" by auto
qed

lemma replace_by_key:
  assumes "distinct (map IncID rows)" "i \<in> set rows"
  shows "map (\<lambda>r. if IncID r = IncID i then f r else r) rows =
         map (\<lambda>r. if r = i then f r else r) rows"
proof (rule map_cong[OF refl])
  fix r assume "r \<in> set rows"
  with assms have "IncID r = IncID i \<longleftrightarrow> r = i"
    by (auto simp: distinct_map dest: inj_onD)
  then show "(if IncID r = IncID i then f r else r) = (if r = i then f r else r)" by simp
qed

lemma maxKey_ge: "k \<in> set ks \<Longrightarrow> k \<le> maxKey ks"
  by (induction ks) (auto simp: maxKey_def)

lemma CreateIncident_rows:
  "\<exists>k. k \<noteq> 0 \<and> k \<notin> set (map IncID (incident_rows d)) \<and>
     incident_rows (CreateIncident (i\<lparr>IncID := 0\<rparr>) d) = incident_rows d @ [i\<lparr>IncID := k\<rparr>]"
proof -
  let ?k = "Suc (max (incident_seq d) (maxKey (map IncID (incident_rows d))))"
  have "?k \<notin> set (map IncID (incident_rows d))"
    using maxKey_ge[of ?k "map IncID (incident_rows d)"] by auto
  then show ?thesis
    by (intro exI[of _ ?k]) (simp add: CreateIncident_def)
qed

lemma UpdateIncident_rows:
  assumes "storeKeyed d" "i \<in> set (incident_rows d)" and that: "IncID (f i) = IncID i"
  shows "incident_rows (UpdateIncident (f i) d) =
         map (\<lambda>r. if r = i then f i else r) (incident_rows d)"
proof -
  from assms have k: "IncID i \<noteq> 0" "list_ex (\<lambda>r. IncID r = IncID i) (incident_rows d)"
    by (auto simp: storeKeyed_def list_ex_iff)
  have "map (\<lambda>r. if IncID r = IncID i then (\<lambda>_. f i) r else r) (incident_rows d) =
        map (\<lambda>r. if r = i then (\<lambda>_. f i) r else r) (incident_rows d)"
    using assms by (intro replace_by_key) (auto simp: storeKeyed_def)
  with k that show ?thesis by (simp add: UpdateIncident_def)
qed

lemma UpdateMonitor_incidents:
  "incident_rows (snd (UpdateMonitor m d)) = incident_rows d"
  "incident_seq (snd (UpdateMonitor m d)) = incident_seq d"
  by (simp_all add: UpdateMonitor_def Let_def)

lemma GetActiveIncident_rows:
  "incident_rows d' = incident_rows d \<Longrightarrow> GetActiveIncident k d' = GetActiveIncident k d"
  by (simp add: GetActiveIncident_def)

lemma storeKeyed_CreateIncident:
  "storeKeyed d \<Longrightarrow> storeKeyed (CreateIncident (i\<lparr>IncID := 0\<rparr>) d)"
  using maxKey_ge[of _ "map IncID (incident_rows d)"]
  by (fastforce simp: storeKeyed_def CreateIncident_def Let_def)

lemma storeKeyed_map:
  assumes "storeKeyed d" "\<And>r. IncID (f r) = IncID r"
  shows "storeKeyed (d\<lparr>incident_rows := map f (incident_rows d)\<rparr>)"
  using assms by (simp add: storeKeyed_def comp_def)

lemma storeKeyed_UpdateIncident:
  assumes "storeKeyed d" "i \<in> set (incident_rows d)" "IncID (g i) = IncID i"
  shows "storeKeyed (UpdateIncident (g i) d)"
proof -
  from assms have k: "IncID i \<noteq> 0" "list_ex (\<lambda>r. IncID r = IncID i) (incident_rows d)"
    by (auto simp: storeKeyed_def list_ex_iff)
  have "storeKeyed (d\<lparr>incident_rows := map (\<lambda>r. if IncID r = IncID i then g i else r) (incident_rows d)\<rparr>)"
    using assms by (intro storeKeyed_map) auto
  with k assms(3) show ?thesis by (simp add: UpdateIncident_def)
qed

lemma storeKeyed_ResolveIncident:
  "storeKeyed d \<Longrightarrow> storeKeyed (ResolveIncident k now d)"
  unfolding ResolveIncident_def by (intro storeKeyed_map) auto

lemma storeKeyed_rows:
  "incident_rows d' = incident_rows d \<Longrightarrow> storeKeyed d' = storeKeyed d"
  by (simp add: storeKeyed_def)

section \<open>The failure threshold\<close>

lemma recordFailure_cases:
  assumes "recordFailure c m statusCode errorMsg now clock = (c', m')"
  shows "ConsecutiveFails m' = ConsecutiveFails m + 1 \<and>
    ((CurrentStatus m' = ''down'') =
       (CurrentStatus m = ''down'' \<or> DefaultMaxFailures \<le>s ConsecutiveFails m + 1)) \<and>
    (DefaultMaxFailures \<le>s ConsecutiveFails m + 1 \<and> CurrentStatus m \<noteq> ''down'' \<longrightarrow>
       (\<exists>k. k \<notin> set (map IncID (incident_rows (db c))) \<and>
          incident_rows (db c') = incident_rows (db c) @
            [\<lparr>IncID = k, IncMonitorID = ID m, StartedAt = now, ResolvedAt = None,
              ErrorMessage = errorMsg, Notified = False, RecoveryNotified = False\<rparr>])) \<and>
    (DefaultMaxFailures \<le>s ConsecutiveFails m + 1 \<and> CurrentStatus m = ''down'' \<and>
     storeKeyed (db c) \<longrightarrow>
       incident_rows (db c') =
         (case GetActiveIncident (ID m) (db c) of
            None \<Rightarrow> incident_rows (db c)
          | Some i \<Rightarrow> map (\<lambda>r. if r = i then i\<lparr>ErrorMessage := errorMsg\<rparr> else r)
                        (incident_rows (db c)))) \<and>
    (\<not> DefaultMaxFailures \<le>s ConsecutiveFails m + 1 \<longrightarrow>
       CurrentStatus m' = CurrentStatus m \<and> incident_rows (db c') = incident_rows (db c))"
proof (cases "DefaultMaxFailures \<le>s ConsecutiveFails m + 1")
  case False
  with assms show ?thesis
    by (auto simp: recordFailure_def Let_def CreateCheckResult_def split: prod.splits
        dest: UpdateMonitor_frame UpdateMonitor_fields)
next
  case True
  let ?d1 = "CreateCheckResult
       \<lparr>CrCreatedAt = now, CrMonitorID = ID m, StatusCode = statusCode, ResponseTime = 0,
        Success = False, CrErrorMessage = errorMsg\<rparr> (db c)"
  have d1: "incident_rows ?d1 = incident_rows (db c)" "storeKeyed ?d1 = storeKeyed (db c)"
    "GetActiveIncident k ?d1 = GetActiveIncident k (db c)" for k
    by (simp_all add: CreateCheckResult_def storeKeyed_def GetActiveIncident_def)
  show ?thesis
  proof (cases "CurrentStatus m = ''down''")
    case down: True
    show ?thesis
    proof (cases "GetActiveIncident (ID m) (db c)")
      case None
      with down True assms d1 show ?thesis
        by (auto simp: recordFailure_def Let_def notifyDownGated_db
            split: prod.splits dest: UpdateMonitor_frame UpdateMonitor_fields)
    next
      case (Some i)
      then have "i \<in> set (incident_rows ?d1)"
        using GetActiveIncident_Some(1)[of "ID m" "db c" i] d1 by simp
      then have "storeKeyed (db c) \<Longrightarrow> incident_rows (UpdateIncident (i\<lparr>ErrorMessage := errorMsg\<rparr>) ?d1) =
         map (\<lambda>r. if r = i then i\<lparr>ErrorMessage := errorMsg\<rparr> else r) (incident_rows (db c))"
        using UpdateIncident_rows[of ?d1 i "\<lambda>i. i\<lparr>ErrorMessage := errorMsg\<rparr>"] d1 by simp
      with Some down True assms d1 show ?thesis
        by (auto simp: recordFailure_def Let_def notifyDownGated_db
            split: prod.splits dest: UpdateMonitor_frame UpdateMonitor_fields)
    qed
  next
    case up: False
    let ?i = "\<lparr>IncID = 0, IncMonitorID = ID m, StartedAt = now, ResolvedAt = None,
              ErrorMessage = errorMsg, Notified = False, RecoveryNotified = False\<rparr>"
    from CreateIncident_rows[of ?d1 ?i]
    have "\<exists>k. k \<notin> set (map IncID (incident_rows (db c))) \<and>
      incident_rows (CreateIncident ?i ?d1) = incident_rows (db c) @ [?i\<lparr>IncID := k\<rparr>]"
      using d1 by auto
    with up True assms show ?thesis
      by (auto simp: recordFailure_def Let_def notifyDownGated_db
          split: prod.splits dest: UpdateMonitor_frame UpdateMonitor_fields)
  qed
qed

lemma recordSuccess_up:
  "CurrentStatus (snd (recordSuccess c m statusCode responseTime now resolveNow)) = ''up''"
proof -
  obtain m' d' where u: "UpdateMonitor
      (m\<lparr>CurrentStatus := ''up'', ConsecutiveFails := 0, LastCheckAt := Some now\<rparr>)
      (CreateCheckResult
        \<lparr>CrCreatedAt = now, CrMonitorID = ID m, StatusCode = statusCode,
         ResponseTime = responseTime, Success = True, CrErrorMessage = []\<rparr> (db c)) = (m', d')"
    by force
  from UpdateMonitor_fields(1)[OF u] have "CurrentStatus m' = ''up''" by simp
  with u show ?thesis
    by (simp add: recordSuccess_def Let_def split: option.splits)
qed

text \<open>
  One check of the primary checker, from any state. A passing check leaves the status
  up. A failing check raises the count by one, and the status is down afterwards exactly
  when it was down before or the count has reached the threshold \<open>DefaultMaxFailures\<close>
  (3). At the crossing (threshold reached, status not down) exactly one incident row is
  added, under a new key, unresolved, for this monitor, with the start time and the error
  of this check. At a failing check while down no row is added: the row that
  \<open>GetActiveIncident\<close> returns, the unresolved incident of the monitor with the smallest
  key, has its error text replaced. Below the threshold neither the status nor the
  incident table changes.
\<close>

lemma recordFailure_step:
  assumes "recordFailure c m statusCode errorMsg now clock = (c', m')"
  shows "ConsecutiveFails m' = ConsecutiveFails m + 1"
    and "(CurrentStatus m' = ''down'') =
       (CurrentStatus m = ''down'' \<or> DefaultMaxFailures \<le>s ConsecutiveFails m + 1)"
    and "DefaultMaxFailures \<le>s ConsecutiveFails m + 1 \<Longrightarrow> CurrentStatus m \<noteq> ''down'' \<Longrightarrow>
       \<exists>k. k \<notin> set (map IncID (incident_rows (db c))) \<and>
          incident_rows (db c') = incident_rows (db c) @
            [\<lparr>IncID = k, IncMonitorID = ID m, StartedAt = now, ResolvedAt = None,
              ErrorMessage = errorMsg, Notified = False, RecoveryNotified = False\<rparr>]"
    and "DefaultMaxFailures \<le>s ConsecutiveFails m + 1 \<Longrightarrow> CurrentStatus m = ''down'' \<Longrightarrow>
       storeKeyed (db c) \<Longrightarrow>
       incident_rows (db c') =
         (case GetActiveIncident (ID m) (db c) of
            None \<Rightarrow> incident_rows (db c)
          | Some i \<Rightarrow> map (\<lambda>r. if r = i then i\<lparr>ErrorMessage := errorMsg\<rparr> else r)
                        (incident_rows (db c)))"
    and "\<not> DefaultMaxFailures \<le>s ConsecutiveFails m + 1 \<Longrightarrow>
       CurrentStatus m' = CurrentStatus m \<and> incident_rows (db c') = incident_rows (db c)"
  using recordFailure_cases[OF assms] by simp_all

text \<open>
  C1. The monitor \<open>site\<close> goes down (incident 1), passes a check, and goes down again:
  at the second crossing, the check at 360 seconds, incident 2 is created with the error
  of that check. The next check fails with another error while the monitor is down. The
  status changes follow the threshold and no third incident is created, but the error
  text that is replaced is that of incident 1, which belongs to the first outage and was
  left unresolved by the recovery; incident 2, the one created at this crossing, keeps
  the text it was created with.
\<close>

theorem stale_incident_rewritten:
  "\<forall>orbit.
     CurrentStatus (snd (runMonitor orbit checker0 site relapse)) = ''down'' \<and>
     map IncID (incident_rows (db (fst (runMonitor orbit checker0 site relapse)))) = [1, 2] \<and>
     map StartedAt (incident_rows (db (fst (runMonitor orbit checker0 site relapse)))) =
       [atSecond 120, atSecond 360] \<and>
     map ErrorMessage (incident_rows (db (fst (runMonitor orbit checker0 site relapse)))) =
       [''connection refused'', ''connection refused''] \<and>
     CurrentStatus (snd (runMonitor orbit checker0 site laterFailure)) = ''down'' \<and>
     map IncID (incident_rows (db (fst (runMonitor orbit checker0 site laterFailure)))) = [1, 2] \<and>
     map ErrorMessage (incident_rows (db (fst (runMonitor orbit checker0 site laterFailure)))) =
       [''context deadline exceeded'', ''connection refused'']"
proof (intro allI)
  fix orbit
  show "CurrentStatus (snd (runMonitor orbit checker0 site relapse)) = ''down'' \<and>
     map IncID (incident_rows (db (fst (runMonitor orbit checker0 site relapse)))) = [1, 2] \<and>
     map StartedAt (incident_rows (db (fst (runMonitor orbit checker0 site relapse)))) =
       [atSecond 120, atSecond 360] \<and>
     map ErrorMessage (incident_rows (db (fst (runMonitor orbit checker0 site relapse)))) =
       [''connection refused'', ''connection refused''] \<and>
     CurrentStatus (snd (runMonitor orbit checker0 site laterFailure)) = ''down'' \<and>
     map IncID (incident_rows (db (fst (runMonitor orbit checker0 site laterFailure)))) = [1, 2] \<and>
     map ErrorMessage (incident_rows (db (fst (runMonitor orbit checker0 site laterFailure)))) =
       [''context deadline exceeded'', ''connection refused'']"
    by code_simp
qed

section \<open>A success while the monitor is not down\<close>

lemma UpdateMonitor_keeps:
  assumes "ID m \<noteq> 0"
  shows "fst (UpdateMonitor m d) = m"
    "incident_rows (snd (UpdateMonitor m d)) = incident_rows d"
    "incident_seq (snd (UpdateMonitor m d)) = incident_seq d"
  using assms by (simp_all add: UpdateMonitor_def)

lemma recordSuccess_not_down:
  assumes "CurrentStatus m \<noteq> ''down''" "ID m \<noteq> 0"
  shows "recordSuccess c m statusCode responseTime now resolveNow =
     (c\<lparr>db := snd (UpdateMonitor
                (m\<lparr>CurrentStatus := ''up'', ConsecutiveFails := 0, LastCheckAt := Some now\<rparr>)
                (CreateCheckResult
                  \<lparr>CrCreatedAt = now, CrMonitorID = ID m, StatusCode = statusCode,
                   ResponseTime = responseTime, Success = True, CrErrorMessage = []\<rparr> (db c)))\<rparr>,
      m\<lparr>CurrentStatus := ''up'', ConsecutiveFails := 0, LastCheckAt := Some now\<rparr>)"
  using assms by (simp add: recordSuccess_def Let_def case_prod_beta UpdateMonitor_keeps)

text \<open>
  C8. A successful check of a stored monitor whose status is not down (up, unknown or
  anything else), \<open>recordSuccess\<close>: the monitor struct afterwards is the one before with
  the status up, the count 0 and the last check at \<open>now\<close>; no incident row is created,
  changed or resolved, no notifier call is made and no cooldown timestamp moves. A second
  successful check right after it changes the last check time only, and again neither
  incidents nor notifications.
\<close>

theorem recordSuccess_idempotent:
  assumes "CurrentStatus m \<noteq> ''down''" "ID m \<noteq> 0"
    and "recordSuccess c m statusCode responseTime now resolveNow = (c', m')"
    and "recordSuccess c' m' statusCode2 responseTime2 now2 resolveNow2 = (c'', m'')"
  shows "m' = m\<lparr>CurrentStatus := ''up'', ConsecutiveFails := 0, LastCheckAt := Some now\<rparr> \<and>
    incident_rows (db c') = incident_rows (db c) \<and> incident_seq (db c') = incident_seq (db c) \<and>
    sent c' = sent c \<and> monitors c' = monitors c \<and>
    m'' = m'\<lparr>LastCheckAt := Some now2\<rparr> \<and>
    incident_rows (db c'') = incident_rows (db c) \<and> incident_seq (db c'') = incident_seq (db c) \<and>
    sent c'' = sent c \<and> monitors c'' = monitors c"
proof -
  have first: "m' = m\<lparr>CurrentStatus := ''up'', ConsecutiveFails := 0, LastCheckAt := Some now\<rparr>"
    "incident_rows (db c') = incident_rows (db c)" "incident_seq (db c') = incident_seq (db c)"
    "sent c' = sent c" "monitors c' = monitors c"
    using assms(3) unfolding recordSuccess_not_down[OF assms(1,2)]
    using assms(2) by (auto simp: UpdateMonitor_keeps CreateCheckResult_def)
  then have "CurrentStatus m' \<noteq> ''down''" "ID m' \<noteq> 0"
    using assms(2) by simp_all
  then have "m'' = m'\<lparr>CurrentStatus := ''up'', ConsecutiveFails := 0, LastCheckAt := Some now2\<rparr>"
    "incident_rows (db c'') = incident_rows (db c')" "incident_seq (db c'') = incident_seq (db c')"
    "sent c'' = sent c'" "monitors c'' = monitors c'"
    using assms(4) by (auto simp: recordSuccess_not_down UpdateMonitor_keeps CreateCheckResult_def)
  with first show ?thesis by simp
qed

theorem recordSuccess_idempotent_witness:
  "CurrentStatus site \<noteq> ''down'' \<and> ID site \<noteq> 0 \<and>
   snd (recordSuccess checker0 site 200 12 (atSecond 0) (atSecond 1)) =
     site\<lparr>CurrentStatus := ''up'', ConsecutiveFails := 0, LastCheckAt := Some (atSecond 0)\<rparr> \<and>
   sent (fst (recordSuccess checker0 site 200 12 (atSecond 0) (atSecond 1))) = [] \<and>
   incident_rows (db (fst (recordSuccess checker0 site 200 12 (atSecond 0) (atSecond 1)))) = []"
proof -
  have start: "CurrentStatus site \<noteq> ''down''" "ID site \<noteq> 0"
    "sent checker0 = []" "incident_rows (db checker0) = []"
    by (simp_all add: site_def checker0_def startMonitor_def store0_def)
  show ?thesis
    using start recordSuccess_idempotent[OF start(1,2) surjective_pairing surjective_pairing,
        of checker0 200 12 "atSecond 0" "atSecond 1" 200 12 "atSecond 60" "atSecond 61"]
    by simp
qed

section \<open>Recovery\<close>

text \<open>
  A passing check of a stored monitor that is down and has an active incident \<open>i\<close>.
  When \<open>i\<close> has its recovery already notified, \<open>i\<close> is resolved and nothing is sent.
  When it has not, one \<open>NotifyRecovery\<close> is sent and the row of \<open>i\<close> ends as \<open>i\<close> with
  \<open>RecoveryNotified\<close> set: \<open>ResolveIncident\<close> wrote the resolution time into the row, and
  \<open>UpdateIncident\<close> then overwrote the row with the struct read before, whose
  \<open>ResolvedAt\<close> is nil.
\<close>

lemma recordSuccess_recovery:
  assumes "CurrentStatus m = ''down''" "ID m \<noteq> 0" "storeKeyed (db c)"
    and "GetActiveIncident (ID m) (db c) = Some i"
    and "recordSuccess c m statusCode responseTime now resolveNow = (c', m')"
  shows "incident_rows (db c') =
     map (\<lambda>r. if r = i
               then (if RecoveryNotified i then i\<lparr>ResolvedAt := Some resolveNow\<rparr>
                     else i\<lparr>RecoveryNotified := True\<rparr>)
               else r) (incident_rows (db c))"
    and "sent c' =
     (if RecoveryNotified i then sent c
      else sent c @ [\<lparr>evalStart = now, calledAt = resolveNow,
                       call = NotifyRecovery (Name m) (URL m)\<rparr>])"
proof -
  let ?m1 = "m\<lparr>CurrentStatus := ''up'', ConsecutiveFails := 0, LastCheckAt := Some now\<rparr>"
  let ?d1 = "CreateCheckResult
     \<lparr>CrCreatedAt = now, CrMonitorID = ID m, StatusCode = statusCode,
      ResponseTime = responseTime, Success = True, CrErrorMessage = []\<rparr> (db c)"
  let ?d2 = "snd (UpdateMonitor ?m1 ?d1)"
  let ?d3 = "ResolveIncident (IncID i) resolveNow ?d2"
  have m1: "fst (UpdateMonitor ?m1 ?d1) = ?m1"
    using assms(2) by (simp add: UpdateMonitor_keeps)
  have rows2: "incident_rows ?d2 = incident_rows (db c)"
    using assms(2) by (simp add: UpdateMonitor_keeps CreateCheckResult_def)
  then have active: "GetActiveIncident (ID m) ?d2 = Some i"
    using assms(4) GetActiveIncident_rows[of ?d2 "db c" "ID m"] by simp
  have i: "i \<in> set (incident_rows (db c))" "IncID i \<noteq> 0" "distinct (map IncID (incident_rows (db c)))"
    using GetActiveIncident_Some(1)[OF assms(4)] assms(3) by (auto simp: storeKeyed_def)
  have rows3: "incident_rows ?d3 =
      map (\<lambda>r. if r = i then r\<lparr>ResolvedAt := Some resolveNow\<rparr> else r) (incident_rows (db c))"
    using replace_by_key[OF i(3,1), of "\<lambda>r. r\<lparr>ResolvedAt := Some resolveNow\<rparr>"] rows2
    by (simp add: ResolveIncident_def)
  have step: "(c', m') =
     (if \<not> RecoveryNotified i then
        (c\<lparr>db := UpdateIncident (i\<lparr>RecoveryNotified := True\<rparr>) ?d3,
           sent := sent c @ [\<lparr>evalStart = now, calledAt = resolveNow,
                              call = NotifyRecovery (Name m) (URL m)\<rparr>]\<rparr>, ?m1)
      else (c\<lparr>db := ?d3\<rparr>, ?m1))"
    using assms(1) assms(5)[symmetric]
    by (simp add: recordSuccess_def Let_def case_prod_beta m1 active)
  show "sent c' =
     (if RecoveryNotified i then sent c
      else sent c @ [\<lparr>evalStart = now, calledAt = resolveNow,
                       call = NotifyRecovery (Name m) (URL m)\<rparr>])"
    using step by (auto split: if_splits)
  show "incident_rows (db c') =
     map (\<lambda>r. if r = i
               then (if RecoveryNotified i then i\<lparr>ResolvedAt := Some resolveNow\<rparr>
                     else i\<lparr>RecoveryNotified := True\<rparr>)
               else r) (incident_rows (db c))"
  proof (cases "RecoveryNotified i")
    case True
    with step rows3 show ?thesis by (auto intro: map_cong)
  next
    case False
    have ex: "list_ex (\<lambda>r. IncID r = IncID i) (incident_rows ?d3)"
      using i(1) rows3 by (auto simp: list_ex_iff)
    have "incident_rows (UpdateIncident (i\<lparr>RecoveryNotified := True\<rparr>) ?d3) =
        map (\<lambda>r. if IncID r = IncID i then i\<lparr>RecoveryNotified := True\<rparr> else r) (incident_rows ?d3)"
      using i(2) ex by (simp add: UpdateIncident_def)
    also have "\<dots> = map (\<lambda>r. if IncID r = IncID i then i\<lparr>RecoveryNotified := True\<rparr> else r)
        (incident_rows (db c))"
      unfolding rows3 by (auto intro: map_cong)
    also have "\<dots> = map (\<lambda>r. if r = i then i\<lparr>RecoveryNotified := True\<rparr> else r)
        (incident_rows (db c))"
      using replace_by_key[OF i(3,1), of "\<lambda>r. i\<lparr>RecoveryNotified := True\<rparr>"] by simp
    finally show ?thesis using False step by simp
  qed
qed

text \<open>
  C3. The monitor \<open>site\<close> fails three checks (it goes down, incident 1 opens, one
  \<open>NotifyDown\<close>) and then passes one. After that check the status is up, the count is 0
  and one \<open>NotifyRecovery\<close> has been sent, but incident 1 is not resolved: its
  \<open>ResolvedAt\<close> is empty again, because \<open>UpdateIncident\<close> saved the struct that was read
  before \<open>ResolveIncident\<close> ran, with \<open>RecoveryNotified\<close> set and \<open>ResolvedAt\<close> still nil.
\<close>

theorem recovery_leaves_incident_active:
  "\<forall>orbit.
     CurrentStatus (snd (runMonitor orbit checker0 site recovery)) = ''up'' \<and>
     ConsecutiveFails (snd (runMonitor orbit checker0 site recovery)) = 0 \<and>
     map call (sent (fst (runMonitor orbit checker0 site recovery))) =
       [NotifyDown ''site'' ''http://site'' ''connection refused'',
        NotifyRecovery ''site'' ''http://site''] \<and>
     map IncID (incident_rows (db (fst (runMonitor orbit checker0 site recovery)))) = [1] \<and>
     map RecoveryNotified (incident_rows (db (fst (runMonitor orbit checker0 site recovery)))) =
       [True] \<and>
     map ResolvedAt (incident_rows (db (fst (runMonitor orbit checker0 site recovery)))) = [None]"
proof (intro allI)
  fix orbit
  show "CurrentStatus (snd (runMonitor orbit checker0 site recovery)) = ''up'' \<and>
     ConsecutiveFails (snd (runMonitor orbit checker0 site recovery)) = 0 \<and>
     map call (sent (fst (runMonitor orbit checker0 site recovery))) =
       [NotifyDown ''site'' ''http://site'' ''connection refused'',
        NotifyRecovery ''site'' ''http://site''] \<and>
     map IncID (incident_rows (db (fst (runMonitor orbit checker0 site recovery)))) = [1] \<and>
     map RecoveryNotified (incident_rows (db (fst (runMonitor orbit checker0 site recovery)))) =
       [True] \<and>
     map ResolvedAt (incident_rows (db (fst (runMonitor orbit checker0 site recovery)))) = [None]"
    by code_simp
qed

text \<open>
  C2. The same run continued by three more failing checks: the monitor goes down again
  and incident 2 opens while incident 1 is still unresolved, so the monitor has two
  unresolved incidents.
\<close>

theorem two_active_incidents:
  "\<forall>orbit.
     map IncID (filter (isActiveFor (ID site))
       (incident_rows (db (fst (runMonitor orbit checker0 site relapse))))) = [1, 2] \<and>
     map ResolvedAt (incident_rows (db (fst (runMonitor orbit checker0 site relapse)))) =
       [None, None] \<and>
     map IncMonitorID (incident_rows (db (fst (runMonitor orbit checker0 site relapse)))) =
       [ID site, ID site]"
proof (intro allI)
  fix orbit
  show "map IncID (filter (isActiveFor (ID site))
       (incident_rows (db (fst (runMonitor orbit checker0 site relapse))))) = [1, 2] \<and>
     map ResolvedAt (incident_rows (db (fst (runMonitor orbit checker0 site relapse)))) =
       [None, None] \<and>
     map IncMonitorID (incident_rows (db (fst (runMonitor orbit checker0 site relapse)))) =
       [ID site, ID site]"
    by code_simp
qed

section \<open>The primary key of the incident table\<close>

text \<open>Every check keeps the keys of the incident table distinct and different from 0.\<close>

lemma storeKeyed_recordFailure:
  assumes "storeKeyed (db c)"
  shows "storeKeyed (db (fst (recordFailure c m statusCode errorMsg now clock)))"
proof -
  let ?d1 = "CreateCheckResult
       \<lparr>CrCreatedAt = now, CrMonitorID = ID m, StatusCode = statusCode, ResponseTime = 0,
        Success = False, CrErrorMessage = errorMsg\<rparr> (db c)"
  have d1: "storeKeyed ?d1" using assms by (simp add: storeKeyed_def CreateCheckResult_def)
  have upd: "storeKeyed (snd (UpdateMonitor x d)) = storeKeyed d" for x d
    by (intro storeKeyed_rows) (simp add: UpdateMonitor_incidents)
  have new: "storeKeyed (CreateIncident \<lparr>IncID = 0, IncMonitorID = k, StartedAt = now,
       ResolvedAt = None, ErrorMessage = errorMsg, Notified = False, RecoveryNotified = False\<rparr> ?d1)" for k
    using storeKeyed_CreateIncident[OF d1, of "\<lparr>IncID = 0, IncMonitorID = k, StartedAt = now,
       ResolvedAt = None, ErrorMessage = errorMsg, Notified = False, RecoveryNotified = False\<rparr>"]
    by simp
  have chg: "storeKeyed (UpdateIncident (i\<lparr>ErrorMessage := errorMsg\<rparr>) ?d1)"
    if "GetActiveIncident k ?d1 = Some i" for i k
    using storeKeyed_UpdateIncident[OF d1 GetActiveIncident_Some(1)[OF that],
        of "\<lambda>i. i\<lparr>ErrorMessage := errorMsg\<rparr>"] by simp
  show ?thesis
    using d1 new chg
    by (auto simp: recordFailure_def Let_def case_prod_beta upd notifyDownGated_db
        split: option.splits)
qed

lemma storeKeyed_recordSuccess:
  assumes "storeKeyed (db c)"
  shows "storeKeyed (db (fst (recordSuccess c m statusCode responseTime now resolveNow)))"
proof -
  let ?d1 = "CreateCheckResult
     \<lparr>CrCreatedAt = now, CrMonitorID = ID m, StatusCode = statusCode,
      ResponseTime = responseTime, Success = True, CrErrorMessage = []\<rparr> (db c)"
  let ?d2 = "snd (UpdateMonitor
     (m\<lparr>CurrentStatus := ''up'', ConsecutiveFails := 0, LastCheckAt := Some now\<rparr>) ?d1)"
  have d2: "storeKeyed ?d2"
    using assms storeKeyed_rows[of ?d2 "db c"]
    by (simp add: UpdateMonitor_incidents CreateCheckResult_def)
  have res: "storeKeyed (ResolveIncident k resolveNow ?d2)" for k
    using d2 by (rule storeKeyed_ResolveIncident)
  have chg: "storeKeyed (UpdateIncident (i\<lparr>RecoveryNotified := True\<rparr>)
       (ResolveIncident (IncID i) resolveNow ?d2))"
    if "GetActiveIncident k ?d2 = Some i" for i k
  proof -
    let ?i' = "i\<lparr>ResolvedAt := Some resolveNow\<rparr>"
    from GetActiveIncident_Some(1)[OF that]
    have "?i' \<in> set (incident_rows (ResolveIncident (IncID i) resolveNow ?d2))"
      by (force simp: ResolveIncident_def)
    from storeKeyed_UpdateIncident[OF res this, of "\<lambda>_. i\<lparr>RecoveryNotified := True\<rparr>"]
    show ?thesis by simp
  qed
  show ?thesis
    using d2 res chg
    by (auto simp: recordSuccess_def Let_def case_prod_beta split: option.splits)
qed

lemma storeKeyed_performCheck:
  "storeKeyed (db c) \<Longrightarrow> storeKeyed (db (fst (performCheck orbit c m r now clock)))"
  by (simp add: performCheck_def storeKeyed_recordFailure storeKeyed_recordSuccess
      split: Outcome.splits)

section \<open>The cooldown of down notifications\<close>

lemma cooldownElapsed_iff:
  "cooldownElapsed clock t \<longleftrightarrow> NotificationCooldown * Second \<le> clock - t"
  by (auto simp: cooldownElapsed_def Sub_def NotificationCooldown_def Second_def
      maxDuration_def minDuration_def)

lemma cooledDown_snoc:
  "cooledDown (xs @ [n]) =
     (cooledDown xs \<and> (xs = [] \<or> NotificationCooldown * Second \<le> calledAt n - evalStart (last xs)))"
  by (induction xs rule: cooledDown.induct) auto

lemma notifyDownGated_gated:
  assumes "gated c (ID m)"
  shows "gated (notifyDownGated c m e now clock) (ID m)"
proof (cases "monitors c (ID m)")
  case None
  with assms show ?thesis by (simp add: notifyDownGated_def)
next
  case (Some ms)
  show ?thesis
  proof (cases "cooldownElapsed clock (lastNotified ms)")
    case False
    with Some assms show ?thesis by (simp add: notifyDownGated_def)
  next
    case True
    then have "NotificationCooldown * Second \<le> clock - lastNotified ms"
      by (simp add: cooldownElapsed_iff)
    with True Some assms show ?thesis
      by (auto simp: notifyDownGated_def gated_def downCalls_def cooledDown_snoc)
  qed
qed

lemma gated_db [simp]: "gated (c\<lparr>db := d\<rparr>) k = gated c k"
  by (simp add: gated_def cong: option.case_cong)

lemma recordFailure_gated:
  assumes "ID m \<noteq> 0" "gated c (ID m)" "recordFailure c m statusCode e now clock = (c', m')"
  shows "gated c' (ID m) \<and> ID m' = ID m"
proof -
  have keep: "fst (UpdateMonitor x d) = x" if "ID x = ID m" for x d
    using that assms(1) by (simp add: UpdateMonitor_def)
  have g: "gated (notifyDownGated (c\<lparr>db := d\<rparr>) (m\<lparr>ConsecutiveFails := n, LastCheckAt := t, CurrentStatus := s\<rparr>) e now clock) (ID m)" for d n t s
    using notifyDownGated_gated[of "c\<lparr>db := d\<rparr>" "m\<lparr>ConsecutiveFails := n, LastCheckAt := t, CurrentStatus := s\<rparr>"] assms(2)
    by simp
  show ?thesis
    using assms(2,3) g
    by (auto simp: recordFailure_def Let_def case_prod_beta keep split: if_splits option.splits)
qed

lemma recordSuccess_gated:
  assumes "ID m \<noteq> 0" "gated c (ID m)"
    "recordSuccess c m statusCode responseTime now resolveNow = (c', m')"
  shows "gated c' (ID m) \<and> ID m' = ID m"
proof -
  have keep: "fst (UpdateMonitor x d) = x" if "ID x = ID m" for x d
    using that assms(1) by (simp add: UpdateMonitor_def)
  show ?thesis
    using assms(2,3)
    by (auto simp: recordSuccess_def Let_def case_prod_beta keep gated_def downCalls_def
        split: if_splits option.splits)
qed

lemma performCheck_gated:
  assumes "ID m \<noteq> 0" "gated c (ID m)" "performCheck orbit c m r now clock = (c', m')"
  shows "gated c' (ID m) \<and> ID m' = ID m"
proof (cases "probe orbit m r")
  case (Passed statusCode responseTime)
  with assms(3) have "recordSuccess c m statusCode responseTime now clock = (c', m')"
    by (simp add: performCheck_def)
  from recordSuccess_gated[OF assms(1,2) this] show ?thesis .
next
  case (Failed statusCode e)
  with assms(3) have "recordFailure c m statusCode e now clock = (c', m')"
    by (simp add: performCheck_def)
  from recordFailure_gated[OF assms(1,2) this] show ?thesis .
qed

lemma runMonitor_gated:
  assumes "ID m \<noteq> 0" "gated c (ID m)"
  shows "gated (fst (runMonitor orbit c m ticks)) (ID m)"
  using assms
proof (induction ticks arbitrary: c m)
  case Nil
  then show ?case by simp
next
  case (Cons tick ticks)
  obtain r now clock where tick: "tick = (r, now, clock)" by (cases tick)
  obtain c' m' where step: "performCheck orbit c m r now clock = (c', m')" by force
  from performCheck_gated[OF Cons.prems step] have "gated c' (ID m')" "ID m' \<noteq> 0" "ID m' = ID m"
    using Cons.prems(1) by simp_all
  with Cons.IH[of m' c'] tick step show ?case by simp
qed

text \<open>
  The gate of the primary checker, for a checker that starts with an empty notifier log
  and runs the task of one stored monitor, over any list of checks and any clock
  readings: every \<open>NotifyDown\<close> after the first is called at a gate reading that lies at
  least the cooldown (300 s) after the \<open>now\<close> of the evaluation that made the previous
  one, and after the run the \<open>lastNotified\<close> of the monitor is the \<open>now\<close> of the
  evaluation that made the latest.
\<close>

lemma runMonitor_cooldown:
  assumes "ID m \<noteq> 0" "sent c = []"
  shows "cooledDown (downCalls (sent (fst (runMonitor orbit c m ticks))))"
    and "gated (fst (runMonitor orbit c m ticks)) (ID m)"
proof -
  from assms(2) have "gated c (ID m)" by (simp add: gated_def downCalls_def)
  from runMonitor_gated[OF assms(1) this]
  show "gated (fst (runMonitor orbit c m ticks)) (ID m)" .
  then show "cooledDown (downCalls (sent (fst (runMonitor orbit c m ticks))))"
    by (simp add: gated_def)
qed

lemma longOutage_calls:
  "map calledAt (downCalls (sent (fst (runMonitor orbit checker0 site longOutage)))) =
     [atSecond 120, atSecond 420]"
  by code_simp

text \<open>
  C4. The tray's check loop calls \<open>NotifyDown\<close> at every transition to down and keeps no
  cooldown: \<open>site\<close> fails the rounds at 0, 30 and 60 seconds (\<open>NotifyDown\<close> at 60), passes
  at 90, and fails at 120, 150 and 180 (\<open>NotifyDown\<close> at 180). The two calls for the one
  monitor are 120 seconds apart, less than the cooldown of 300 seconds.
\<close>

theorem tray_ignores_cooldown:
  "\<forall>orbit.
     map call (downCalls (traySent (runChecker orbit tray0 trayFlap))) =
       [NotifyDown ''site'' ''http://site'' ''connection refused'',
        NotifyDown ''site'' ''http://site'' ''connection refused''] \<and>
     map calledAt (downCalls (traySent (runChecker orbit tray0 trayFlap))) =
       [atSecond 60, atSecond 180] \<and>
     atSecond 180 - atSecond 60 < NotificationCooldown * Second \<and>
     \<not> cooledDown (downCalls (traySent (runChecker orbit tray0 trayFlap)))"
proof (intro allI)
  fix orbit
  show "map call (downCalls (traySent (runChecker orbit tray0 trayFlap))) =
       [NotifyDown ''site'' ''http://site'' ''connection refused'',
        NotifyDown ''site'' ''http://site'' ''connection refused''] \<and>
     map calledAt (downCalls (traySent (runChecker orbit tray0 trayFlap))) =
       [atSecond 60, atSecond 180] \<and>
     atSecond 180 - atSecond 60 < NotificationCooldown * Second \<and>
     \<not> cooledDown (downCalls (traySent (runChecker orbit tray0 trayFlap)))"
    by code_simp
qed

text \<open>
  A restarted task starts with a new state, so the primary checker forgets the cooldown
  too: \<open>site\<close> goes down at 120 seconds, the task is restarted (\<open>UpdateMonitor\<close> of the
  checker is \<open>RemoveMonitor\<close> then \<open>startMonitor\<close>), and its first check at 130 seconds
  calls \<open>NotifyDown\<close> again.
\<close>

lemma restart_forgets_cooldown:
  "map calledAt (downCalls (sent (fst
     (runMonitor orbit
        (startMonitor
           (RemoveMonitor (fst (runMonitor orbit checker0 site outage))
              (ID (snd (runMonitor orbit checker0 site outage))))
           (snd (runMonitor orbit checker0 site outage)))
        (snd (runMonitor orbit checker0 site outage))
        [tick refused 130])))) =
   [atSecond 120, atSecond 130]"
  by code_simp

section \<open>The tray and the incident table\<close>

lemma checkOne_incidents:
  "incident_rows (trayDb (checkOne orbit t mon r now)) = incident_rows (trayDb t)"
  "incident_seq (trayDb (checkOne orbit t mon r now)) = incident_seq (trayDb t)"
  by (simp_all add: checkOne_def Let_def case_prod_beta UpdateMonitor_incidents
      CreateCheckResult_def)

lemma checkEach_incidents:
  "incident_rows (trayDb (checkEach orbit t mons env)) = incident_rows (trayDb t) \<and>
   incident_seq (trayDb (checkEach orbit t mons env)) = incident_seq (trayDb t)"
  by (induction mons arbitrary: t) (simp_all add: checkOne_incidents)

lemma checkAllMonitors_incidents:
  "incident_rows (trayDb (checkAllMonitors orbit t env)) = incident_rows (trayDb t) \<and>
   incident_seq (trayDb (checkAllMonitors orbit t env)) = incident_seq (trayDb t)"
  by (simp add: checkAllMonitors_def checkEach_incidents)

text \<open>
  C10. A round of the tray's \<open>checkAllMonitors\<close>, and any number of rounds of its loop,
  leave the incident table as it was, rows and key sequence, whatever the probes return:
  the tray creates, changes and resolves no incident, also in a round that turns a
  monitor down or up again.
\<close>

theorem tray_leaves_incidents:
  "incident_rows (trayDb (checkAllMonitors orbit t env)) = incident_rows (trayDb t) \<and>
   incident_seq (trayDb (checkAllMonitors orbit t env)) = incident_seq (trayDb t) \<and>
   incident_rows (trayDb (runChecker orbit t envs)) = incident_rows (trayDb t) \<and>
   incident_seq (trayDb (runChecker orbit t envs)) = incident_seq (trayDb t)"
proof -
  have "incident_rows (trayDb (runChecker orbit t envs)) = incident_rows (trayDb t) \<and>
   incident_seq (trayDb (runChecker orbit t envs)) = incident_seq (trayDb t)"
    by (induction envs arbitrary: t) (simp_all add: checkAllMonitors_incidents)
  then show ?thesis by (simp add: checkAllMonitors_incidents)
qed

theorem tray_leaves_incidents_witness:
  "\<forall>orbit.
     map CurrentStatus (monitor_rows (trayDb (runChecker orbit tray0 trayOutage))) = [''down''] \<and>
     map CurrentStatus (monitor_rows (trayDb (runChecker orbit tray0 trayFlap))) = [''down''] \<and>
     map CurrentStatus (monitor_rows (trayDb
       (runChecker orbit tray0 (trayOutage @ [everyMonitor healthy 90])))) = [''up''] \<and>
     incident_rows (trayDb (runChecker orbit tray0 trayFlap)) = []"
proof (intro allI)
  fix orbit
  have flips:
    "map CurrentStatus (monitor_rows (trayDb (runChecker orbit tray0 trayOutage))) = [''down'']"
    "map CurrentStatus (monitor_rows (trayDb (runChecker orbit tray0 trayFlap))) = [''down'']"
    "map CurrentStatus (monitor_rows (trayDb
       (runChecker orbit tray0 (trayOutage @ [everyMonitor healthy 90])))) = [''up'']"
    by code_simp+
  have "incident_rows (trayDb tray0) = []" by (simp add: tray0_def store0_def)
  with flips
  show "map CurrentStatus (monitor_rows (trayDb (runChecker orbit tray0 trayOutage))) = [''down''] \<and>
     map CurrentStatus (monitor_rows (trayDb (runChecker orbit tray0 trayFlap))) = [''down''] \<and>
     map CurrentStatus (monitor_rows (trayDb
       (runChecker orbit tray0 (trayOutage @ [everyMonitor healthy 90])))) = [''up''] \<and>
     incident_rows (trayDb (runChecker orbit tray0 trayFlap)) = []"
    using tray_leaves_incidents[of orbit tray0 "everyMonitor refused 0" trayFlap]
    by simp
qed

section \<open>Defaults for malformed configuration\<close>

lemma performCheck_timeout_zero:
  "Timeout m = 0 \<Longrightarrow> performCheck_timeout m = DefaultTimeout * SecondW"
  by (simp add: performCheck_timeout_def)

lemma ParseExpectedCodes_empty: "ParseExpectedCodes [] = [200]"
  by (simp add: ParseExpectedCodes_def)

lemma startMonitor_interval_nonpositive:
  assumes "sint (CheckInterval m) \<le> 0" "- 9223372036 \<le> sint (CheckInterval m)"
  shows "startMonitor_interval m = DefaultCheckInterval * SecondW"
proof -
  let ?x = "CheckInterval m"
  have "sint (?x * SecondW) = signed_take_bit 63 (sint ?x * 1000000000)"
    by (simp add: SecondW_def sint_word_ariths)
  also have "\<dots> = sint ?x * 1000000000"
    using assms by (intro signed_take_bit_int_eq_self) auto
  finally have "sint (?x * SecondW) \<le> 0" using assms by simp
  then have "?x * SecondW <s SecondW"
    by (simp add: word_sless_alt SecondW_def)
  then show ?thesis by (simp add: startMonitor_interval_def)
qed

lemma startMonitor_interval_wraps:
  "sint (startMonitor_interval (site\<lparr>CheckInterval := - 9223372037\<rparr>)) = 9223372036709551616"
  by (simp add: startMonitor_interval_def SecondW_def word_sless_alt)

text \<open>
  C5. A timeout of -5 is not replaced by the default: the deadline of the request is
  -5 seconds, where the default is 10 seconds. Only the value 0 is replaced.
\<close>

theorem negative_timeout_kept:
  "sint (performCheck_timeout (site\<lparr>Timeout := - 5\<rparr>)) = - 5000000000 \<and>
   sint (DefaultTimeout * SecondW) = 10000000000"
  by (simp add: performCheck_timeout_def SecondW_def DefaultTimeout_def)

section \<open>Keyword matching\<close>
















section \<open>Trimming white space\<close>

lemma spaceRunes_checks:
  "list_all (\<lambda>w. list_all (\<lambda>w'. prefix w w' \<longrightarrow> w = w') spaceRunes) spaceRunes"
  "list_all (\<lambda>w. list_all (\<lambda>w'. prefix (rev w) (rev w') \<longrightarrow> w = w') spaceRunes) spaceRunes"
  "list_all (\<lambda>w. list_all (\<lambda>w'. hd w' \<notin> set (tl w)) spaceRunes) spaceRunes"
  "list_all (\<lambda>w. CHR '','' \<notin> set w) spaceRunes"
  by code_simp+

lemma spaceRunes_prefix_free:
  "w \<in> set spaceRunes \<Longrightarrow> w' \<in> set spaceRunes \<Longrightarrow> prefix w w' \<Longrightarrow> w = w'"
  using spaceRunes_checks(1) by (auto simp: list_all_iff)

lemma spaceRunes_suffix_free:
  "w \<in> set spaceRunes \<Longrightarrow> w' \<in> set spaceRunes \<Longrightarrow> prefix (rev w) (rev w') \<Longrightarrow> w = w'"
  using spaceRunes_checks(2) by (auto simp: list_all_iff)

lemma spaceRunes_inner:
  "w \<in> set spaceRunes \<Longrightarrow> w' \<in> set spaceRunes \<Longrightarrow> hd w' \<notin> set (tl w)"
  using spaceRunes_checks(3) by (auto simp: list_all_iff)

lemma spaceRunes_no_comma:
  "w \<in> set spaceRunes \<Longrightarrow> CHR '','' \<notin> set w"
  using spaceRunes_checks(4) by (auto simp: list_all_iff)


lemma prefix_drop: "prefix w s \<Longrightarrow> s = w @ drop (length w) s"
  by (auto simp: prefix_def)

lemma firstSpaceRune_Some:
  "firstSpaceRune s = Some w \<Longrightarrow> w \<in> set spaceRunes \<and> prefix w s"
  by (auto simp: firstSpaceRune_def dest: find_SomeD)

lemma lastSpaceRune_Some:
  "lastSpaceRune s = Some w \<Longrightarrow> w \<in> set spaceRunes \<and> prefix (rev w) (rev s)"
  by (auto simp: lastSpaceRune_def dest: find_SomeD)

lemma firstSpaceRune_append:
  assumes "w \<in> set spaceRunes"
  shows "firstSpaceRune (w @ s) = Some w"
proof (cases "firstSpaceRune (w @ s)")
  case None
  with assms show ?thesis by (auto simp: firstSpaceRune_def find_None_iff)
next
  case (Some w')
  then have w': "w' \<in> set spaceRunes" "prefix w' (w @ s)"
    by (auto dest: firstSpaceRune_Some)
  then have "prefix w w' \<or> prefix w' w"
    by (meson prefix_same_cases prefixI)
  with assms w' have "w' = w" by (auto dest: spaceRunes_prefix_free)
  with Some show ?thesis by simp
qed

lemma lastSpaceRune_append:
  assumes "w \<in> set spaceRunes"
  shows "lastSpaceRune (s @ w) = Some w"
proof (cases "lastSpaceRune (s @ w)")
  case None
  with assms show ?thesis by (auto simp: lastSpaceRune_def find_None_iff)
next
  case (Some w')
  then have w': "w' \<in> set spaceRunes" "prefix (rev w') (rev w @ rev s)"
    by (auto dest: lastSpaceRune_Some)
  then have "prefix (rev w) (rev w') \<or> prefix (rev w') (rev w)"
    by (meson prefix_same_cases prefixI)
  with assms w' have "w' = w" by (auto dest: spaceRunes_suffix_free)
  with Some show ?thesis by simp
qed

lemma TrimLeftSpace_rune: "w \<in> set spaceRunes \<Longrightarrow> TrimLeftSpace (w @ s) = TrimLeftSpace s"
  by (subst TrimLeftSpace.simps) (simp add: firstSpaceRune_append)

lemma TrimRightSpace_rune: "w \<in> set spaceRunes \<Longrightarrow> TrimRightSpace (s @ w) = TrimRightSpace s"
  by (subst TrimRightSpace.simps) (simp add: lastSpaceRune_append)

lemma TrimLeftSpace_runes:
  "set ws \<subseteq> set spaceRunes \<Longrightarrow> TrimLeftSpace (concat ws @ s) = TrimLeftSpace s"
  by (induction ws) (simp_all add: TrimLeftSpace_rune)

lemma TrimRightSpace_runes:
  "set ws \<subseteq> set spaceRunes \<Longrightarrow> TrimRightSpace (s @ concat ws) = TrimRightSpace s"
proof (induction ws rule: rev_induct)
  case Nil
  then show ?case by simp
next
  case (snoc w ws)
  then have "TrimRightSpace ((s @ concat ws) @ w) = TrimRightSpace (s @ concat ws)"
    by (intro TrimRightSpace_rune) simp
  with snoc show ?case by simp
qed

lemma TrimLeftSpace_Nil [simp]: "TrimLeftSpace [] = []"
  by (subst TrimLeftSpace.simps) (simp add: firstSpaceRune_def spaceRunes_def)

lemma TrimRightSpace_Nil [simp]: "TrimRightSpace [] = []"
  by (subst TrimRightSpace.simps) (simp add: lastSpaceRune_def spaceRunes_def)

text \<open>A string of which trimming on the left leaves nothing is a row of white-space runes.\<close>

lemma whiteSpace_runes:
  "TrimLeftSpace l = [] \<Longrightarrow> \<exists>ws. set ws \<subseteq> set spaceRunes \<and> l = concat ws"
proof (induction l rule: TrimLeftSpace.induct)
  case (1 s)
  show ?case
  proof (cases "firstSpaceRune s")
    case None
    with "1.prems" have "s = []" by (subst (asm) TrimLeftSpace.simps) simp
    then show ?thesis by (intro exI[of _ "[]"]) simp
  next
    case (Some w)
    with "1.prems" have "TrimLeftSpace (drop (length w) s) = []"
      by (subst (asm) TrimLeftSpace.simps) simp
    from "1.IH"[OF Some this] obtain ws
      where ws: "set ws \<subseteq> set spaceRunes" "drop (length w) s = concat ws" by blast
    from Some have w: "w \<in> set spaceRunes" "prefix w s" by (auto dest: firstSpaceRune_Some)
    then have "s = w @ drop (length w) s" by (intro prefix_drop)
    with ws w show ?thesis by (intro exI[of _ "w # ws"]) simp
  qed
qed

lemma TrimLeftSpace_keeps_tail:
  assumes "set ws \<subseteq> set spaceRunes" "TrimLeftSpace e \<noteq> []"
  shows "TrimLeftSpace (e @ concat ws) = TrimLeftSpace e @ concat ws"
  using assms(2)
proof (induction e rule: TrimLeftSpace.induct)
  case (1 s)
  show ?case
  proof (cases "firstSpaceRune s")
    case (Some w)
    then have w: "w \<in> set spaceRunes" "s = w @ drop (length w) s"
      by (auto dest: firstSpaceRune_Some prefix_drop)
    have t: "TrimLeftSpace s = TrimLeftSpace (drop (length w) s)"
      using Some by (subst TrimLeftSpace.simps) simp
    with "1.prems" have "TrimLeftSpace (drop (length w) s) \<noteq> []" by simp
    from "1.IH"[OF Some this] t
    have "TrimLeftSpace (drop (length w) s @ concat ws) = TrimLeftSpace s @ concat ws" by simp
    moreover have "TrimLeftSpace (s @ concat ws) = TrimLeftSpace (drop (length w) s @ concat ws)"
      using TrimLeftSpace_rune[OF w(1), of "drop (length w) s @ concat ws"] w(2)
      by (metis append.assoc)
    ultimately show ?thesis by simp
  next
    case None
    then have s: "TrimLeftSpace s = s" by (subst TrimLeftSpace.simps) simp
    with "1.prems" have ne: "s \<noteq> []" by simp
    have "firstSpaceRune (s @ concat ws) = None"
    proof (rule ccontr)
      assume "firstSpaceRune (s @ concat ws) \<noteq> None"
      then obtain w where "firstSpaceRune (s @ concat ws) = Some w" by blast
      then have w: "w \<in> set spaceRunes" "prefix w (s @ concat ws)"
        by (auto dest: firstSpaceRune_Some)
      from None w(1) have "\<not> prefix w s"
        by (auto simp: firstSpaceRune_def find_None_iff)
      with w(2) obtain us where us: "w = s @ us" "prefix us (concat ws)" "us \<noteq> []"
        by (auto simp: prefix_append)
      then have "concat ws \<noteq> []" by (cases "concat ws") auto
      then obtain w' rest where w': "w' \<in> set spaceRunes" "concat ws = w' @ rest" "w' \<noteq> []"
        using assms(1)
      proof (induction ws)
        case Nil
        then show ?case by simp
      next
        case (Cons a ws)
        show ?case
        proof (cases "a = []")
          case True
          with Cons show ?thesis by (auto dest: spaceRunes_nonempty)
        next
          case False
          with Cons.prems show ?thesis by (auto intro: Cons.prems(1)[of a "concat ws"])
        qed
      qed
      with us have "hd us = hd w'" by (cases us; cases w') (auto simp: prefix_def)
      moreover from us ne have "hd us \<in> set (tl w)" by (cases s; cases us) auto
      ultimately show False using spaceRunes_inner[OF w(1) w'(1)] by simp
    qed
    then have "TrimLeftSpace (s @ concat ws) = s @ concat ws"
      by (subst TrimLeftSpace.simps) simp
    with s show ?thesis by simp
  qed
qed

lemma TrimSpace_runes:
  assumes "set ls \<subseteq> set spaceRunes" "set rs \<subseteq> set spaceRunes"
  shows "TrimSpace (concat ls @ e @ concat rs) = TrimSpace e"
proof -
  have left: "TrimLeftSpace (concat ls @ e @ concat rs) = TrimLeftSpace (e @ concat rs)"
    using assms(1) by (simp add: TrimLeftSpace_runes)
  show ?thesis
  proof (cases "TrimLeftSpace e = []")
    case True
    then obtain es where es: "set es \<subseteq> set spaceRunes" "e = concat es"
      by (auto dest!: whiteSpace_runes)
    then have "TrimLeftSpace (e @ concat rs) = TrimLeftSpace (concat rs)"
      by (simp add: TrimLeftSpace_runes)
    also have "\<dots> = []"
      using TrimLeftSpace_runes[OF assms(2), of "[]"] by simp
    finally show ?thesis using left True by (simp add: TrimSpace_def)
  next
    case False
    from TrimLeftSpace_keeps_tail[OF assms(2) False]
    have "TrimLeftSpace (e @ concat rs) = TrimLeftSpace e @ concat rs" .
    with left assms(2) show ?thesis by (simp add: TrimSpace_def TrimRightSpace_runes)
  qed
qed

text \<open>
  The table of \<open>TrimSpace\<close> holds the encodings of the white-space characters, so white
  space before and after a string is trimmed away, and a string that does not begin with
  a white-space character is trimmed at its end only.
\<close>

lemma spaceRunes_utf8: "spaceRunes = map utf8 spaceCodes"
  by code_simp

lemma utf8s_runes:
  assumes "list_all IsSpace cs"
  shows "set (map utf8 cs) \<subseteq> set spaceRunes" "utf8s cs = concat (map utf8 cs)"
  using assms by (auto simp: spaceRunes_utf8 IsSpace_def list_all_iff utf8s_def)

lemma TrimSpace_padded:
  assumes "list_all IsSpace l" "list_all IsSpace r"
  shows "TrimSpace (utf8s l @ e @ utf8s r) = TrimSpace e"
  using TrimSpace_runes[OF utf8s_runes(1)[OF assms(1)] utf8s_runes(1)[OF assms(2)], of e]
  by (simp add: utf8s_def)

lemma firstSpaceRune_None: "firstSpaceRune p = None \<longleftrightarrow> \<not> startsWithSpace p"
  by (auto simp: firstSpaceRune_def startsWithSpace_def find_None_iff list_ex_iff spaceRunes_utf8)

lemma TrimLeftSpace_bare:
  assumes "\<not> startsWithSpace p"
  shows "TrimLeftSpace p = p"
proof -
  from assms have "firstSpaceRune p = None" by (simp add: firstSpaceRune_None)
  then show ?thesis by (subst TrimLeftSpace.simps) simp
qed

lemma TrimRightSpace_runes_left:
  "\<exists>ws. set ws \<subseteq> set spaceRunes \<and> s = TrimRightSpace s @ concat ws"
proof (induction s rule: TrimRightSpace.induct)
  case (1 s)
  show ?case
  proof (cases "lastSpaceRune s")
    case None
    then have "TrimRightSpace s = s" by (subst TrimRightSpace.simps) simp
    then show ?thesis by (intro exI[of _ "[]"]) simp
  next
    case (Some w)
    then have w: "w \<in> set spaceRunes" "prefix (rev w) (rev s)"
      by (auto dest: lastSpaceRune_Some)
    then have "suffix w s" by (simp add: suffix_to_prefix)
    then have s: "s = take (length s - length w) s @ w"
      by (auto simp: suffix_def)
    have t: "TrimRightSpace s = TrimRightSpace (take (length s - length w) s)"
      using Some by (subst TrimRightSpace.simps) simp
    from "1.IH"[OF Some] obtain ws where ws: "set ws \<subseteq> set spaceRunes"
      "take (length s - length w) s = TrimRightSpace (take (length s - length w) s) @ concat ws"
      by blast
    have "s = TrimRightSpace s @ concat (ws @ [w])"
      using s ws(2) t by (metis append.assoc append_Nil2 concat.simps concat_append)
    with ws(1) w(1) show ?thesis by (intro exI[of _ "ws @ [w]"]) simp
  qed
qed

section \<open>Parsing the expected codes\<close>

lemma Split_plain: "sep \<notin> set x \<Longrightarrow> Split x sep = [x]"
  by (induction x) auto

lemma Split_first:
  "sep \<notin> set x \<Longrightarrow> Split (x @ sep # rest) sep = x # Split rest sep"
  by (induction x) auto

lemma Split_joinWith:
  assumes "xs \<noteq> []" "\<forall>x \<in> set xs. sep \<notin> set x"
  shows "Split (joinWith [sep] xs) sep = xs"
  using assms
proof (induction "[sep]" xs rule: joinWith.induct)
  case 1
  then show ?case by simp
next
  case (2 x)
  then show ?case by (simp add: Split_plain)
next
  case (3 x y ys)
  then show ?case by (simp add: Split_first)
qed

lemma Split_nonempty: "Split s sep \<noteq> []"
  by (cases s) (auto split: list.splits)

lemma Split_no_sep: "e \<in> set (Split s sep) \<Longrightarrow> sep \<notin> set e"
  by (induction s arbitrary: e) (auto split: if_splits list.splits)

lemma joinWith_Cons: "joinWith sep ((c # p) # ps) = c # joinWith sep (p # ps)"
  by (cases ps) simp_all

lemma joinWith_Split: "joinWith [sep] (Split s sep) = s"
proof (induction s)
  case Nil
  show ?case by simp
next
  case (Cons c s)
  obtain p ps where ps: "Split s sep = p # ps"
    using Split_nonempty[of s sep] by (cases "Split s sep") auto
  with Cons show ?case by (simp add: joinWith_Cons)
qed

lemma utf8s_no_comma:
  assumes "list_all IsSpace l"
  shows "CHR '','' \<notin> set (utf8s l)"
  using utf8s_runes[OF assms] by (auto dest: spaceRunes_no_comma)

lemma ParseExpectedCodes_parts:
  "ParseExpectedCodes s =
     (if filter (\<lambda>code. 0 < code) (map scanCode (Split s CHR '','')) = [] then [200]
      else filter (\<lambda>code. 0 < code) (map scanCode (Split s CHR '','')))"
proof (cases "s = []")
  case True
  have "scanCode [] = 0"
    by (simp add: scanCode_def TrimSpace_def scanInt_def)
  with True show ?thesis by (simp add: ParseExpectedCodes_def)
next
  case False
  then show ?thesis by (simp add: ParseExpectedCodes_def Let_def)
qed

lemma spaceRunes_heads_check:
  "list_all (\<lambda>w. \<not> isDigit (hd w) \<and> \<not> isSign (hd w)) spaceRunes"
  by code_simp

lemma spaceRunes_heads:
  "w \<in> set spaceRunes \<Longrightarrow> \<not> isDigit (hd w) \<and> \<not> isSign (hd w)"
  using spaceRunes_heads_check by (auto simp: list_all_iff)

lemma concat_runes_head:
  assumes "set ws \<subseteq> set spaceRunes"
  shows "concat ws = [] \<or> (\<not> isDigit (hd (concat ws)) \<and> \<not> isSign (hd (concat ws)))"
  using assms
proof (induction ws)
  case Nil
  show ?case by simp
next
  case (Cons w ws)
  then have "w \<in> set spaceRunes" by simp
  then have "w \<noteq> []" "\<not> isDigit (hd w) \<and> \<not> isSign (hd w)"
    by (auto dest: spaceRunes_nonempty spaceRunes_heads)
  then show ?case by simp
qed

lemma takeWhile_append_stop:
  "t = [] \<or> \<not> P (hd t) \<Longrightarrow> takeWhile P (q @ t) = takeWhile P q"
  by (induction q) (auto simp: takeWhile_eq_Nil_iff)

lemma scanInt_append:
  assumes "t = [] \<or> (\<not> isDigit (hd t) \<and> \<not> isSign (hd t))"
  shows "scanInt (q @ t) = scanInt q"
proof (cases "t = []")
  case True
  then show ?thesis by simp
next
  case False
  with assms have t: "\<not> isDigit (hd t)" "\<not> isSign (hd t)" by simp_all
  then have tw: "takeWhile isDigit (x @ t) = takeWhile isDigit x" for x
    by (intro takeWhile_append_stop) simp
  from False t have tw0: "takeWhile isDigit t = []"
    by (cases t) simp_all
  show ?thesis
  proof (cases q)
    case Nil
    with False t show ?thesis by (simp add: scanInt_def)
  next
    case (Cons c q')
    show ?thesis
    proof (cases q')
      case Nil
      with Cons False t tw0 show ?thesis by (simp add: scanInt_def Let_def)
    next
      case (Cons d q'')
      with \<open>q = c # q'\<close> tw[of "q''"] show ?thesis
        by (simp add: scanInt_def Let_def)
    qed
  qed
qed

lemma scanCode_bare:
  assumes "\<not> startsWithSpace p"
  shows "scanCode p = (case scanInt p of None \<Rightarrow> 0 | Some code \<Rightarrow> code)"
proof -
  obtain ws where ws: "set ws \<subseteq> set spaceRunes" "p = TrimRightSpace p @ concat ws"
    using TrimRightSpace_runes_left by blast
  have "scanInt (TrimRightSpace p @ concat ws) = scanInt (TrimRightSpace p)"
    by (intro scanInt_append concat_runes_head ws(1))
  with ws(2) have "scanInt (TrimRightSpace p) = scanInt p" by simp
  then show ?thesis
    using assms by (simp add: scanCode_def TrimSpace_def TrimLeftSpace_bare)
qed

lemma digitVal_nonneg: "isDigit c \<Longrightarrow> 0 \<le> digitVal c"
  by (auto simp: isDigit_def digitVal_def)

lemma decimalValue_nonneg:
  assumes "list_all isDigit ds"
  shows "0 \<le> decimalValue ds"
proof -
  have "0 \<le> n \<Longrightarrow> list_all isDigit ds \<Longrightarrow> 0 \<le> foldl (\<lambda>n c. 10 * n + digitVal c) n ds" for n
    by (induction ds arbitrary: n) (auto simp: digitVal_nonneg)
  with assms show ?thesis by (simp add: decimalValue_def)
qed

lemma takeWhile_isDigit: "list_all isDigit (takeWhile isDigit s)"
  by (induction s) auto

lemma ParseInt_digits:
  assumes "ds \<noteq> []" "list_all isDigit ds"
  shows "ParseInt ds = (if decimalValue ds < 2 ^ 63 then Some (decimalValue ds) else None)"
    and "ParseInt (CHR ''+'' # ds) =
       (if decimalValue ds < 2 ^ 63 then Some (decimalValue ds) else None)"
    and "ParseInt (CHR ''-'' # ds) =
       (if decimalValue ds \<le> 2 ^ 63 then Some (- decimalValue ds) else None)"
proof -
  from assms have "isDigit (hd ds)" by (cases ds) auto
  then have "\<not> isSign (hd ds)" "hd ds \<noteq> CHR ''-''"
    by (auto simp: isDigit_def isSign_def)
  with assms show "ParseInt ds = (if decimalValue ds < 2 ^ 63 then Some (decimalValue ds) else None)"
    by (simp add: ParseInt_def Let_def)
  from assms show "ParseInt (CHR ''+'' # ds) =
       (if decimalValue ds < 2 ^ 63 then Some (decimalValue ds) else None)"
    by (simp add: ParseInt_def Let_def isSign_def)
  from assms show "ParseInt (CHR ''-'' # ds) =
       (if decimalValue ds \<le> 2 ^ 63 then Some (- decimalValue ds) else None)"
    by (simp add: ParseInt_def Let_def isSign_def)
qed

lemma scanInt_entryCode:
  "(case scanInt p of None \<Rightarrow> None | Some v \<Rightarrow> if 0 < v then Some v else None) = entryCode p"
proof (cases p)
  case Nil
  then show ?thesis by (simp add: scanInt_def entryCode_def)
next
  case (Cons c rest)
  let ?ds = "takeWhile isDigit rest"
  have ds: "list_all isDigit ?ds" by (rule takeWhile_isDigit)
  have ne: "?ds \<noteq> [] \<longleftrightarrow> rest \<noteq> [] \<and> isDigit (hd rest)"
    by (cases rest) auto
  consider "c = CHR ''+''" | "c = CHR ''-''" | "isDigit c" | "\<not> isSign c" "\<not> isDigit c"
    by (auto simp: isSign_def)
  then show ?thesis
  proof cases
    case 1
    show ?thesis
    proof (cases "?ds = []")
      case True
      with 1 Cons ne show ?thesis by (auto simp: scanInt_def entryCode_def Let_def isSign_def)
    next
      case False
      with 1 Cons ne ParseInt_digits(2)[OF False ds] show ?thesis
        by (auto simp: scanInt_def entryCode_def Let_def isSign_def)
    qed
  next
    case 2
    then have nd: "\<not> isDigit c" by (simp add: isDigit_def)
    show ?thesis
    proof (cases "?ds = []")
      case True
      with 2 nd Cons ne show ?thesis by (auto simp: scanInt_def entryCode_def Let_def isSign_def)
    next
      case False
      with 2 nd Cons ne ParseInt_digits(3)[OF False ds] decimalValue_nonneg[OF ds] show ?thesis
        by (auto simp: scanInt_def entryCode_def Let_def isSign_def)
    qed
  next
    case 3
    then have c: "\<not> isSign c" "c \<noteq> CHR ''+''" by (auto simp: isDigit_def isSign_def)
    have "list_all isDigit (c # ?ds)" using 3 ds by simp
    from ParseInt_digits(1)[OF _ this] 3 c Cons show ?thesis
      by (auto simp: scanInt_def entryCode_def Let_def)
  next
    case 4
    then have "c \<noteq> CHR ''+''" by (auto simp: isSign_def)
    with 4 Cons show ?thesis by (auto simp: scanInt_def entryCode_def Let_def)
  qed
qed

lemma scanCode_entryCode:
  assumes "list_all IsSpace l" "list_all IsSpace r" "\<not> startsWithSpace p"
  shows "(if 0 < scanCode (utf8s l @ p @ utf8s r)
          then Some (scanCode (utf8s l @ p @ utf8s r)) else None) = entryCode p"
proof -
  have "scanCode (utf8s l @ p @ utf8s r) = scanCode p"
    using assms(1,2) by (simp add: scanCode_def TrimSpace_padded)
  also have "\<dots> = (case scanInt p of None \<Rightarrow> 0 | Some code \<Rightarrow> code)"
    using assms(3) by (rule scanCode_bare)
  finally show ?thesis
    using scanInt_entryCode[of p] by (auto split: option.splits if_splits)
qed

lemma filter_positive:
  "filter (\<lambda>code. 0 < code) (map f xs) =
     List.map_filter (\<lambda>x. if 0 < f x then Some (f x) else None) xs"
  by (induction xs) simp_all

lemma ParseExpectedCodes_entries:
  assumes "ps \<noteq> []"
    and "\<forall>(l, p, r) \<in> set ps. list_all IsSpace l \<and> list_all IsSpace r \<and>
           CHR '','' \<notin> set p \<and> \<not> startsWithSpace p"
  shows "ParseExpectedCodes (joinWith '','' (map (\<lambda>(l, p, r). utf8s l @ p @ utf8s r) ps)) =
     (case List.map_filter (\<lambda>(l, p, r). entryCode p) ps of [] \<Rightarrow> [200] | c # cs \<Rightarrow> c # cs)"
proof -
  let ?es = "map (\<lambda>(l, p, r). utf8s l @ p @ utf8s r) ps"
  have 1: "Split (joinWith '','' ?es) CHR '','' = ?es"
    using assms by (intro Split_joinWith) (auto dest: utf8s_no_comma)
  have "List.map_filter (\<lambda>e. if 0 < scanCode e then Some (scanCode e) else None) ?es =
        List.map_filter (\<lambda>(l, p, r). entryCode p) ps"
    using assms(2)
  proof (induction ps)
    case Nil
    show ?case by simp
  next
    case (Cons x ps)
    obtain l p r where x: "x = (l, p, r)" by (cases x)
    with Cons.prems have "list_all IsSpace l" "list_all IsSpace r" "\<not> startsWithSpace p"
      by auto
    from scanCode_entryCode[OF this] Cons x show ?case by (simp split: option.splits)
  qed
  with filter_positive[of scanCode ?es]
  have 2: "filter (\<lambda>code. 0 < code) (map scanCode ?es) =
      List.map_filter (\<lambda>(l, p, r). entryCode p) ps"
    by (rule trans)
  show ?thesis
    unfolding ParseExpectedCodes_parts 1 2 by (simp split: list.splits)
qed

lemma TrimLeftSpace_codes:
  "\<exists>l. list_all IsSpace l \<and> s = utf8s l @ TrimLeftSpace s \<and> \<not> startsWithSpace (TrimLeftSpace s)"
proof (induction s rule: TrimLeftSpace.induct)
  case (1 s)
  show ?case
  proof (cases "firstSpaceRune s")
    case None
    then have "TrimLeftSpace s = s" by (subst TrimLeftSpace.simps) simp
    with None show ?thesis
      by (intro exI[of _ "[]"]) (simp add: utf8s_def firstSpaceRune_None)
  next
    case (Some w)
    then have w: "w \<in> set spaceRunes" "s = w @ drop (length w) s"
      by (auto dest: firstSpaceRune_Some prefix_drop)
    then obtain c where c: "IsSpace c" "w = utf8 c"
      by (auto simp: spaceRunes_utf8 IsSpace_def)
    have t: "TrimLeftSpace s = TrimLeftSpace (drop (length w) s)"
      using Some by (subst TrimLeftSpace.simps) simp
    from "1.IH"[OF Some] obtain l where l: "list_all IsSpace l"
      "drop (length w) s = utf8s l @ TrimLeftSpace (drop (length w) s)"
      "\<not> startsWithSpace (TrimLeftSpace (drop (length w) s))"
      by blast
    have "s = utf8s (c # l) @ TrimLeftSpace s"
      using w(2) l(2) c(2) t by (simp add: utf8s_def)
    with c(1) l(1,3) t show ?thesis by (intro exI[of _ "c # l"]) simp
  qed
qed

lemma entries_exist:
  "\<exists>ps. ps \<noteq> [] \<and>
     (\<forall>(l, p, r) \<in> set ps. list_all IsSpace l \<and> list_all IsSpace r \<and>
        CHR '','' \<notin> set p \<and> \<not> startsWithSpace p) \<and>
     s = joinWith '','' (map (\<lambda>(l, p, r). utf8s l @ p @ utf8s r) ps)"
proof -
  have "\<forall>e \<in> set es. CHR '','' \<notin> set e \<Longrightarrow>
     \<exists>ps. map (\<lambda>(l, p, r). utf8s l @ p @ utf8s r) ps = es \<and>
       (\<forall>(l, p, r) \<in> set ps. list_all IsSpace l \<and> list_all IsSpace r \<and>
          CHR '','' \<notin> set p \<and> \<not> startsWithSpace p)" for es
  proof (induction es)
    case Nil
    show ?case by (intro exI[of _ "[]"]) simp
  next
    case (Cons e es)
    then obtain ps where ps: "map (\<lambda>(l, p, r). utf8s l @ p @ utf8s r) ps = es"
      "\<forall>(l, p, r) \<in> set ps. list_all IsSpace l \<and> list_all IsSpace r \<and>
          CHR '','' \<notin> set p \<and> \<not> startsWithSpace p"
      by auto
    obtain l where l: "list_all IsSpace l" "e = utf8s l @ TrimLeftSpace e"
      "\<not> startsWithSpace (TrimLeftSpace e)"
      using TrimLeftSpace_codes by blast
    from Cons.prems have "CHR '','' \<notin> set e" by simp
    with l(2) have "CHR '','' \<notin> set (TrimLeftSpace e)"
      by (metis Un_iff set_append)
    with l ps show ?case
      by (intro exI[of _ "(l, TrimLeftSpace e, []) # ps"]) (simp add: utf8s_def)
  qed
  from this[of "Split s CHR '',''"] obtain ps
    where ps: "map (\<lambda>(l, p, r). utf8s l @ p @ utf8s r) ps = Split s CHR '',''"
      "\<forall>(l, p, r) \<in> set ps. list_all IsSpace l \<and> list_all IsSpace r \<and>
          CHR '','' \<notin> set p \<and> \<not> startsWithSpace p"
    by (auto dest: Split_no_sep)
  have "ps \<noteq> []" using ps(1) Split_nonempty[of s "CHR '',''"] by auto
  moreover have "s = joinWith '','' (map (\<lambda>(l, p, r). utf8s l @ p @ utf8s r) ps)"
    unfolding ps(1) by (simp add: joinWith_Split)
  ultimately show ?thesis using ps(2) by blast
qed

lemma entryCode_positiveInteger:
  assumes "positiveInteger p" "decimalValue p < 2 ^ 63"
  shows "entryCode p = Some (decimalValue p)"
proof -
  from assms(1) have p: "p \<noteq> []" "list_all isDigit p" "0 < decimalValue p"
    by (simp_all add: positiveInteger_def)
  then have "isDigit (hd p)" by (cases p) auto
  then have "hd p \<noteq> CHR ''+''" by (auto simp: isDigit_def)
  moreover from p(2) have tw: "takeWhile isDigit p = p"
    by (induction p) auto
  ultimately show ?thesis using p assms(2) by (simp add: entryCode_def Let_def tw)
qed

lemma entryCode_trailing:
  assumes "ds \<noteq> []" "list_all isDigit ds" "t = [] \<or> \<not> isDigit (hd t)"
  shows "entryCode (ds @ t) = entryCode ds"
proof -
  from assms(1,2) have "isDigit (hd ds)" by (cases ds) auto
  then have hd: "hd ds \<noteq> CHR ''+''" by (auto simp: isDigit_def)
  from assms(3) have "takeWhile isDigit (ds @ t) = takeWhile isDigit ds"
    by (rule takeWhile_append_stop)
  with hd assms(1) show ?thesis by (simp add: entryCode_def)
qed

lemma entryCode_none:
  "p = [] \<or> (\<not> isDigit (hd p) \<and> hd p \<noteq> CHR ''+'') \<Longrightarrow> entryCode p = None"
  by (cases p) (auto simp: entryCode_def)

text \<open>
  C6, as amended. \<open>ParseExpectedCodes\<close>: "200,201" gives 200 and 201; the empty string
  gives 200 alone. Every input is a row of entries joined by commas, each entry being
  white space, a core that has no comma and does not begin with a white-space character,
  and white space again. The result is then the codes that the cores are read as
  (\<open>entryCode\<close>), in the order of the entries, and 200 alone when no core is read as a
  code; the white space around the cores plays no part. A core that is a positive
  integer up to \<open>2^63 - 1\<close> is read as its value. A core that starts with a row of
  digits is read as that row is, whatever follows the digits, also after a plus sign;
  after a minus sign it is read as no code; a row of digits is read as no code exactly
  when its value is 0 or above \<open>2^63 - 1\<close>. A core that is empty or starts with
  something other than a digit or a plus sign is read as no code.
\<close>

theorem ParseExpectedCodes_reading:
  "ParseExpectedCodes ''200,201'' = [200, 201] \<and>
   ParseExpectedCodes [] = [200] \<and>
   (ps \<noteq> [] \<and>
    (\<forall>(l, p, r) \<in> set ps. list_all IsSpace l \<and> list_all IsSpace r \<and>
       CHR '','' \<notin> set p \<and> \<not> startsWithSpace p) \<longrightarrow>
      ParseExpectedCodes (joinWith '','' (map (\<lambda>(l, p, r). utf8s l @ p @ utf8s r) ps)) =
        (case List.map_filter (\<lambda>(l, p, r). entryCode p) ps of
           [] \<Rightarrow> [200]
         | c # cs \<Rightarrow> c # cs)) \<and>
   (\<exists>qs. qs \<noteq> [] \<and>
      (\<forall>(l, p, r) \<in> set qs. list_all IsSpace l \<and> list_all IsSpace r \<and>
         CHR '','' \<notin> set p \<and> \<not> startsWithSpace p) \<and>
      s = joinWith '','' (map (\<lambda>(l, p, r). utf8s l @ p @ utf8s r) qs)) \<and>
   (positiveInteger e \<and> decimalValue e < 2 ^ 63 \<longrightarrow> entryCode e = Some (decimalValue e)) \<and>
   (ds \<noteq> [] \<and> list_all isDigit ds \<and> (t = [] \<or> \<not> isDigit (hd t)) \<longrightarrow>
      entryCode (ds @ t) = entryCode ds \<and>
      entryCode (CHR ''+'' # ds @ t) = entryCode ds \<and>
      entryCode (CHR ''-'' # ds @ t) = None \<and>
      (entryCode ds = None) = (decimalValue ds = 0 \<or> 2 ^ 63 \<le> decimalValue ds)) \<and>
   (e = [] \<or> (\<not> isDigit (hd e) \<and> hd e \<noteq> CHR ''+'') \<longrightarrow> entryCode e = None)"
proof -
  have 1: "ParseExpectedCodes ''200,201'' = [200, 201]"
    by code_simp
  have 2: "ParseExpectedCodes [] = [200]"
    by (simp add: ParseExpectedCodes_def)
  have 3: "entryCode (ds @ t) = entryCode ds \<and>
      entryCode (CHR ''+'' # ds @ t) = entryCode ds \<and>
      entryCode (CHR ''-'' # ds @ t) = None \<and>
      (entryCode ds = None) = (decimalValue ds = 0 \<or> 2 ^ 63 \<le> decimalValue ds)"
    if that: "ds \<noteq> []" "list_all isDigit ds" "t = [] \<or> \<not> isDigit (hd t)"
  proof -
    from that(1,2) have "isDigit (hd ds)" by (cases ds) auto
    then have hd: "hd ds \<noteq> CHR ''+''" by (auto simp: isDigit_def)
    from that(2) have tw: "takeWhile isDigit ds = ds" by (induction ds) auto
    from that(3) have tw': "takeWhile isDigit (ds @ t) = ds"
      using takeWhile_append_stop[of t isDigit ds] tw by simp
    have a: "entryCode (ds @ t) = entryCode ds"
      using that by (rule entryCode_trailing)
    have b: "entryCode (CHR ''+'' # ds @ t) = entryCode ds"
      using hd that(1) by (simp add: entryCode_def tw tw')
    have c: "entryCode (CHR ''-'' # ds @ t) = None"
      by (simp add: entryCode_def isDigit_def)
    have d: "(entryCode ds = None) = (decimalValue ds = 0 \<or> 2 ^ 63 \<le> decimalValue ds)"
      using hd that(1) decimalValue_nonneg[OF that(2)] by (auto simp: entryCode_def tw)
    from a b c d show ?thesis by blast
  qed
  then have 4: "ds \<noteq> [] \<and> list_all isDigit ds \<and> (t = [] \<or> \<not> isDigit (hd t)) \<longrightarrow>
      entryCode (ds @ t) = entryCode ds \<and>
      entryCode (CHR ''+'' # ds @ t) = entryCode ds \<and>
      entryCode (CHR ''-'' # ds @ t) = None \<and>
      (entryCode ds = None) = (decimalValue ds = 0 \<or> 2 ^ 63 \<le> decimalValue ds)"
    by (intro impI) (elim conjE)
  have 5: "ps \<noteq> [] \<and>
    (\<forall>(l, p, r) \<in> set ps. list_all IsSpace l \<and> list_all IsSpace r \<and>
       CHR '','' \<notin> set p \<and> \<not> startsWithSpace p) \<longrightarrow>
      ParseExpectedCodes (joinWith '','' (map (\<lambda>(l, p, r). utf8s l @ p @ utf8s r) ps)) =
        (case List.map_filter (\<lambda>(l, p, r). entryCode p) ps of
           [] \<Rightarrow> [200]
         | c # cs \<Rightarrow> c # cs)"
    by (intro impI, elim conjE) (rule ParseExpectedCodes_entries)
  have 6: "positiveInteger e \<and> decimalValue e < 2 ^ 63 \<longrightarrow> entryCode e = Some (decimalValue e)"
    by (intro impI, elim conjE) (rule entryCode_positiveInteger)
  have 7: "e = [] \<or> (\<not> isDigit (hd e) \<and> hd e \<noteq> CHR ''+'') \<longrightarrow> entryCode e = None"
    by (intro impI) (rule entryCode_none)
  from 1 2 5 entries_exist[of s] 6 4 7 show ?thesis
    by (intro conjI)
qed

theorem ParseExpectedCodes_reading_witness:
  "ParseExpectedCodes ('' 200 ,201'' @ [CHR 0x09, CHR 0xC2, CHR 0xA0]) = [200, 201] \<and>
   ParseExpectedCodes ''abc,-5, ,0,'' = [200] \<and>
   ParseExpectedCodes ''404x,+7,9223372036854775808,12 3'' = [404, 7, 12] \<and>
   entryCode ''404x'' = Some 404 \<and>
   entryCode ''9223372036854775808'' = None"
proof -
  let ?a = "[([0x20], ''200'', [0x20]), ([], ''201'', [0x09, 0xA0])] :: (int list \<times> string \<times> int list) list"
  let ?b = "[([], ''abc'', []), ([], ''-5'', []), ([0x20], [], []), ([], ''0'', []), ([], [], [])]
      :: (int list \<times> string \<times> int list) list"
  let ?c = "[([], ''404x'', []), ([], ''+7'', []), ([], ''9223372036854775808'', []), ([], ''12 3'', [])]
      :: (int list \<times> string \<times> int list) list"
  have ok: "list_all (\<lambda>(l, p, r). list_all IsSpace l \<and> list_all IsSpace r \<and>
       CHR '','' \<notin> set p \<and> \<not> startsWithSpace p) ?a"
    "list_all (\<lambda>(l, p, r). list_all IsSpace l \<and> list_all IsSpace r \<and>
       CHR '','' \<notin> set p \<and> \<not> startsWithSpace p) ?b"
    "list_all (\<lambda>(l, p, r). list_all IsSpace l \<and> list_all IsSpace r \<and>
       CHR '','' \<notin> set p \<and> \<not> startsWithSpace p) ?c"
    by code_simp+
  have joined: "joinWith '','' (map (\<lambda>(l, p, r). utf8s l @ p @ utf8s r) ?a) =
      '' 200 ,201'' @ [CHR 0x09, CHR 0xC2, CHR 0xA0]"
    "joinWith '','' (map (\<lambda>(l, p, r). utf8s l @ p @ utf8s r) ?b) = ''abc,-5, ,0,''"
    "joinWith '','' (map (\<lambda>(l, p, r). utf8s l @ p @ utf8s r) ?c) =
      ''404x,+7,9223372036854775808,12 3''"
    by code_simp+
  have codes: "List.map_filter (\<lambda>(l, p, r). entryCode p) ?a = [200, 201]"
    "List.map_filter (\<lambda>(l, p, r). entryCode p) ?b = []"
    "List.map_filter (\<lambda>(l, p, r). entryCode p) ?c = [404, 7, 12]"
    "entryCode ''404x'' = Some 404" "entryCode ''9223372036854775808'' = None"
    by code_simp+
  from ParseExpectedCodes_reading[of ?a] ok(1)
  have a: "ParseExpectedCodes ('' 200 ,201'' @ [CHR 0x09, CHR 0xC2, CHR 0xA0]) = [200, 201]"
    unfolding joined codes list_all_iff by simp
  from ParseExpectedCodes_reading[of ?b] ok(2)
  have b: "ParseExpectedCodes ''abc,-5, ,0,'' = [200]"
    unfolding joined codes list_all_iff by simp
  from ParseExpectedCodes_reading[of ?c] ok(3)
  have c: "ParseExpectedCodes ''404x,+7,9223372036854775808,12 3'' = [404, 7, 12]"
    unfolding joined codes list_all_iff by simp
  from a b c codes(4,5) show ?thesis by blast
qed

text \<open>
  C6, as stated, fails: the entry "404x" is not a positive integer, yet it is read as
  404, because the scan stops at the first character that is not a digit and ignores the
  rest; and the entry "9223372036854775808" is a positive integer that does not appear
  in the result, because it does not fit Go's \<open>int\<close>.
\<close>

theorem trailing_text_is_read:
  "Split ''404x'' CHR '','' = [''404x''] \<and>
   \<not> positiveInteger ''404x'' \<and>
   ParseExpectedCodes ''404x'' = [404] \<and>
   Split ''9223372036854775808'' CHR '','' = [''9223372036854775808''] \<and>
   positiveInteger ''9223372036854775808'' \<and>
   ParseExpectedCodes ''9223372036854775808'' = [200]"
  by code_simp

end
